theory Spec2Isabelle
  imports Main
begin

section \<open>Errors raised by the two components\<close>

text \<open>
  Every \<^verbatim>\<open>throw new Error(...)\<close> of the two source files is one constructor, named after
  the error kinds of the specification:
  \<^item> \<^verbatim>\<open>'invalid process id: ...'\<close> (LamportClock constructor),
  \<^item> \<^verbatim>\<open>'malformed timestamp: ...'\<close> (parseTimestamp),
  \<^item> \<^verbatim>\<open>'invalid spec'\<close> (Spec constructor, string branch),
  \<^item> \<^verbatim>\<open>'unrecognized parameter'\<close> (Spec constructor, last branch),
  \<^item> the failure of the token constructor \<^verbatim>\<open>new Stamp(text)\<close> on text outside the
    token grammar.
\<close>

datatype error =
  InvalidProcessId
  | MalformedTimestamp
  | InvalidSpecifier
  | UnrecognizedSpecInput
  | MalformedToken

section \<open>The logical clock\<close>

subsection \<open>The modules the clock requires\<close>

text \<open>
  The clock file starts with \<^verbatim>\<open>require('./base64')\<close> and
  \<^verbatim>\<open>require('./LamportTimestamp')\<close>. It uses three members of the first
  (\<^verbatim>\<open>reTok.test\<close>, \<^verbatim>\<open>int2base\<close>, \<^verbatim>\<open>base2int\<close>) and one of the second (the regular
  expression \<^verbatim>\<open>reTokExt\<close>, through \<^verbatim>\<open>ts.match\<close>, of which it reads the capture groups
  \<^verbatim>\<open>m[1]\<close> and \<^verbatim>\<open>m[2]\<close>). The two modules are parameters of every clock operation:
  a regular expression is the function from the subject string to its match
  (\<open>None\<close> is JavaScript's \<^verbatim>\<open>null\<close>).
\<close>

record base64_module =
  reTok :: "string \<Rightarrow> bool"
  int2base :: "nat \<Rightarrow> nat \<Rightarrow> string"
  base2int :: "string \<Rightarrow> nat"

record LamportTimestamp_module =
  reTokExt :: "string \<Rightarrow> (string \<times> string) option"

subsection \<open>State and operations\<close>

text \<open>
  The object has the two fields \<^verbatim>\<open>this.id\<close> and \<^verbatim>\<open>this.seq\<close>. The counter is a natural
  number: the source's counter is a JavaScript number that starts at 0 and only ever
  receives \<^verbatim>\<open>+ 1\<close> or a decoded sequence number.
\<close>

record LamportClock =
  clock_id :: string
  seq :: nat

record parsed_timestamp =
  ts_seq :: nat
  ts_process :: string

definition new_LamportClock :: "base64_module \<Rightarrow> string \<Rightarrow> error + LamportClock" where
  "new_LamportClock b64 processId =
     (if \<not> reTok b64 processId then Inl InvalidProcessId
      else Inr \<lparr>clock_id = processId, seq = 0\<rparr>)"

definition adjustTime :: "LamportClock \<Rightarrow> LamportClock" where
  "adjustTime c = c"

text \<open>\<^verbatim>\<open>int2base(this.seq++, 5)\<close>: the encoded value is the counter before the increment.\<close>

definition issueTimestamp :: "base64_module \<Rightarrow> LamportClock \<Rightarrow> string \<times> LamportClock" where
  "issueTimestamp b64 c =
     (let base = int2base b64 (seq c) 5
      in (base @ ''+'' @ clock_id c, c\<lparr>seq := seq c + 1\<rparr>))"

definition parseTimestamp ::
  "base64_module \<Rightarrow> LamportTimestamp_module \<Rightarrow> string \<Rightarrow> error + parsed_timestamp" where
  "parseTimestamp b64 lts ts =
     (case reTokExt lts ts of
        None \<Rightarrow> Inl MalformedTimestamp
      | Some (m1, m2) \<Rightarrow> Inr \<lparr>ts_seq = base2int b64 m1, ts_process = m2\<rparr>)"

text \<open>
  \<^verbatim>\<open>checkTimestamp\<close> returns \<^verbatim>\<open>true\<close> or propagates the exception of
  \<^verbatim>\<open>parseTimestamp\<close>; the clock after the call is returned in both cases (an exception
  leaves it as it was).
\<close>

definition checkTimestamp ::
  "base64_module \<Rightarrow> LamportTimestamp_module \<Rightarrow> LamportClock \<Rightarrow> string
     \<Rightarrow> (error + bool) \<times> LamportClock" where
  "checkTimestamp b64 lts c ts =
     (case parseTimestamp b64 lts ts of
        Inl e \<Rightarrow> (Inl e, c)
      | Inr parsed \<Rightarrow>
          (Inr True,
           if ts_seq parsed \<ge> seq c then c\<lparr>seq := ts_seq parsed + 1\<rparr> else c))"

text \<open>\<^verbatim>\<open>time2date\<close> returns \<^verbatim>\<open>undefined\<close> (here the unit value) and touches nothing.\<close>

definition time2date :: "LamportClock \<Rightarrow> unit \<times> LamportClock" where
  "time2date c = ((), c)"

subsection \<open>Running operations in sequence\<close>

text \<open>One call of any method of the clock, and the clock it leaves behind.\<close>

datatype clock_op =
  AdjustTime
  | IssueTimestamp
  | ParseTimestamp string
  | CheckTimestamp string
  | Time2date

fun clock_step ::
  "base64_module \<Rightarrow> LamportTimestamp_module \<Rightarrow> LamportClock \<Rightarrow> clock_op \<Rightarrow> LamportClock" where
  "clock_step b64 lts c AdjustTime = adjustTime c"
| "clock_step b64 lts c IssueTimestamp = snd (issueTimestamp b64 c)"
| "clock_step b64 lts c (ParseTimestamp ts) = c"
| "clock_step b64 lts c (CheckTimestamp ts) = snd (checkTimestamp b64 lts c ts)"
| "clock_step b64 lts c Time2date = snd (time2date c)"

text \<open>\<open>n\<close> consecutive calls of \<^verbatim>\<open>issueTimestamp\<close>: the strings returned, in order.\<close>

fun issue_n :: "base64_module \<Rightarrow> nat \<Rightarrow> LamportClock \<Rightarrow> string list \<times> LamportClock" where
  "issue_n b64 0 c = ([], c)"
| "issue_n b64 (Suc n) c =
     (let (t, c') = issueTimestamp b64 c;
          (tl, c'') = issue_n b64 n c'
      in (t # tl, c''))"

subsection \<open>The codec and the timestamp grammar, from the specification\<close>

text \<open>
  Modelled from the spec: the modules \<^verbatim>\<open>base64\<close> and \<^verbatim>\<open>LamportTimestamp\<close>, which the
  clock requires and whose source is absent. The specification describes a base64 integer codec with a
  fixed-width encoder (\<open>EncodeFixedWidthInt(n, width)\<close>, \<open>DecodeInt(text)\<close>), a token
  grammar over the base64 alphabet, and the timestamp grammar
  \<open><base64-token>+<base64-token>\<close>. The alphabet is the 62 alphanumerics with \<open>_\<close> and
  \<open>~\<close>, in ASCII order, so that the text order of equal-width encodings is the numeric
  order. Only the concrete instances below depend on this; the theorems on the clock
  hold for every pair of modules.
\<close>

definition base64 :: string where
  "base64 = ''0123456789ABCDEFGHIJKLMNOPQRSTUVWXYZ_abcdefghijklmnopqrstuvwxyz~''"

text \<open>Modelled from the spec: membership in the base64 alphabet.\<close>

definition is64 :: "char \<Rightarrow> bool" where
  "is64 c = (c \<in> set base64)"

text \<open>
  Modelled from the spec: the value of a digit of the absent codec, its position in the
  alphabet (the length of the alphabet for a character outside it).
\<close>

fun index_of :: "char \<Rightarrow> string \<Rightarrow> nat" where
  "index_of c [] = 0"
| "index_of c (x # xs) = (if x = c then 0 else Suc (index_of c xs))"

text \<open>
  Modelled from the spec: \<open>EncodeFixedWidthInt(n, width)\<close> of the absent codec, exactly
  \<open>width\<close> digits, most significant first. A value of
  \<open>64 ^ width\<close> or more has no encoding of that width; the specification leaves the policy
  open, and this instance keeps the low digits.
\<close>

fun spec_int2base :: "nat \<Rightarrow> nat \<Rightarrow> string" where
  "spec_int2base n 0 = []"
| "spec_int2base n (Suc w) = spec_int2base (n div 64) w @ [base64 ! (n mod 64)]"

text \<open>
  Modelled from the spec: \<open>DecodeInt(text)\<close> of the absent codec, the digits read in
  base 64, most significant first.
\<close>

definition spec_base2int :: "string \<Rightarrow> nat" where
  "spec_base2int s = foldl (\<lambda>a c. a * 64 + index_of c base64) 0 s"

text \<open>
  Modelled from the spec: the token grammar \<^verbatim>\<open>base64.reTok\<close> of the absent module; a plain
  token is a non-empty run of base64 digits.
\<close>

definition spec_reTok :: "string \<Rightarrow> bool" where
  "spec_reTok s = (s \<noteq> [] \<and> list_all is64 s)"

text \<open>
  Modelled from the spec: the expression \<^verbatim>\<open>LamportTimestamp.reTokExt\<close> of the absent
  module, the timestamp grammar \<open><base64-token>+<base64-token>\<close> matched against the whole
  string; the groups are the two tokens.
\<close>

definition spec_reTokExt :: "string \<Rightarrow> (string \<times> string) option" where
  "spec_reTokExt s =
     (let m1 = takeWhile is64 s; r = dropWhile is64 s
      in case r of
           [] \<Rightarrow> None
         | c # m2 \<Rightarrow>
             if c = CHR ''+'' \<and> m1 \<noteq> [] \<and> spec_reTok m2 then Some (m1, m2) else None)"

text \<open>Modelled from the spec: the two absent modules, with the members above.\<close>

definition spec_base64 :: base64_module where
  "spec_base64 = \<lparr>reTok = spec_reTok, int2base = spec_int2base, base2int = spec_base2int\<rparr>"

definition spec_LamportTimestamp :: LamportTimestamp_module where
  "spec_LamportTimestamp = \<lparr>reTokExt = spec_reTokExt\<rparr>"

section \<open>The specifier\<close>

subsection \<open>Tokens\<close>

text \<open>
  Modelled from the spec: the class \<^verbatim>\<open>Stamp\<close> (required from \<^verbatim>\<open>./Stamp\<close>), whose source
  is absent. The specification describes a token as an atomic value in the
  base64 alphabet, bare or a \<open>value+origin\<close> pair, with a canonical zero sentinel, a
  string projection, structural equality and a parser that validates the grammar.

  The specifier compares tokens with \<^verbatim>\<open>!==\<close>, which on JavaScript objects is identity,
  so a token object is modelled as its reference together with its text. Tokens are
  never mutated, so the text can travel with the reference. Reference 0 is the object
  \<^verbatim>\<open>Stamp.ZERO\<close>, created when the module is loaded; the \<open>heap\<close> is the number of
  objects that \<^verbatim>\<open>new Stamp\<close> has created since, and the next one gets the next number.
\<close>

record Stamp =
  ref :: nat
  str :: string

type_synonym heap = nat

text \<open>
  Modelled from the spec: the zero sentinel. Its text is \<open>0\<close>: the serializer of the
  source emits \<open>.\<close> followed by the text of the name token for the empty specifier, and
  that is \<open>.0\<close>.
\<close>

definition Stamp_ZERO :: Stamp where
  "Stamp_ZERO = \<lparr>ref = 0, str = ''0''\<rparr>"

text \<open>What the constructors may be handed where a token is expected.\<close>

datatype tok_like = TUndefined | TNull | TStr string | TStamp Stamp

text \<open>
  Modelled from the spec: the token grammar \<^verbatim>\<open>Stamp.rsTok\<close>, a non-empty run of base64
  digits, optionally followed by \<open>+\<close> and another non-empty run. \<open>match_tok s\<close> is the
  greedy match of that pattern at the start of \<open>s\<close>: the token and the rest of the string.
\<close>

definition match_tok :: "string \<Rightarrow> (string \<times> string) option" where
  "match_tok s =
     (let v = takeWhile is64 s; r = dropWhile is64 s
      in if v = [] then None
         else case r of
                [] \<Rightarrow> Some (v, r)
              | c # r' \<Rightarrow>
                  (let og = takeWhile is64 r'
                   in if c = CHR ''+'' \<and> og \<noteq> [] then Some (v @ ''+'' @ og, dropWhile is64 r')
                      else Some (v, r)))"

text \<open>Modelled from the spec: the token parser accepts the strings that are one token.\<close>

definition is_tok :: "string \<Rightarrow> bool" where
  "is_tok s = (match_tok s = Some (s, []))"

text \<open>
  Modelled from the spec: \<^verbatim>\<open>new Stamp(x)\<close>. An empty or missing argument gives a token
  with the text of the zero sentinel, a string is validated against the grammar, a
  token is copied. Every call creates a new object.
\<close>

definition new_Stamp :: "tok_like \<Rightarrow> heap \<Rightarrow> (error + Stamp) \<times> heap" where
  "new_Stamp x h =
     (case x of
        TUndefined \<Rightarrow> (Inr \<lparr>ref = Suc h, str = ''0''\<rparr>, Suc h)
      | TNull \<Rightarrow> (Inr \<lparr>ref = Suc h, str = ''0''\<rparr>, Suc h)
      | TStr s \<Rightarrow>
          if s = [] then (Inr \<lparr>ref = Suc h, str = ''0''\<rparr>, Suc h)
          else if is_tok s then (Inr \<lparr>ref = Suc h, str = s\<rparr>, Suc h)
          else (Inl MalformedToken, h)
      | TStamp t \<Rightarrow> (Inr \<lparr>ref = Suc h, str = str t\<rparr>, Suc h))"

text \<open>Modelled from the spec: the string projection and structural equality of tokens.\<close>

definition Stamp_toString :: "Stamp \<Rightarrow> string" where
  "Stamp_toString t = str t"

definition Stamp_eq :: "Stamp \<Rightarrow> Stamp \<Rightarrow> bool" where
  "Stamp_eq a b = (str a = str b)"

definition Stamp_isEmpty :: "Stamp \<Rightarrow> bool" where
  "Stamp_isEmpty t = (str t = ''0'')"

text \<open>
  Modelled from the spec: the origin of a \<open>value+origin\<close> token is the text after the
  \<open>+\<close>; a bare token carries none.
\<close>

definition Stamp_origin :: "Stamp \<Rightarrow> string option" where
  "Stamp_origin t =
     (case dropWhile (\<lambda>c. c \<noteq> CHR ''+'') (str t) of [] \<Rightarrow> None | c # og \<Rightarrow> Some og)"

subsection \<open>The specifier object and its constructor\<close>

record Spec =
  toks :: "Stamp list"

definition quants :: string where
  "quants = [CHR ''/'', CHR ''#'', CHR ''!'', CHR ''.'']"

text \<open>
  \<^verbatim>\<open>Spec.reSpec\<close> is \<^verbatim>\<open>^(?:\/(T))?(?:\#(T))?(?:\!(T))?(?:\.(T))?$\<close> with \<open>T\<close> the token
  pattern. One optional group: the quant followed by a token, or nothing. A token holds
  no quant, and after a group only a later quant or the end of the string can follow,
  so the backtracking of the regular expression never finds a match that the greedy
  left-to-right reading misses.
\<close>

definition match_group :: "char \<Rightarrow> string \<Rightarrow> tok_like \<times> string" where
  "match_group q s =
     (case s of
        [] \<Rightarrow> (TUndefined, s)
      | c # s' \<Rightarrow>
          if c = q then
            (case match_tok s' of
               None \<Rightarrow> (TUndefined, s)
             | Some (t, r) \<Rightarrow> (TStr t, r))
          else (TUndefined, s))"

text \<open>
  \<^verbatim>\<open>Spec.reSpec.exec(spec)\<close> with \<^verbatim>\<open>lastIndex = 0\<close>: \<open>None\<close> is \<^verbatim>\<open>null\<close>; a match is the
  array of the whole string and the four capture groups, where a group that took no part
  in the match is \<^verbatim>\<open>undefined\<close>.
\<close>

definition reSpec_exec :: "string \<Rightarrow> tok_like list option" where
  "reSpec_exec s =
     (let (m1, r1) = match_group (quants ! 0) s;
          (m2, r2) = match_group (quants ! 1) r1;
          (m3, r3) = match_group (quants ! 2) r2;
          (m4, r4) = match_group (quants ! 3) r3
      in if r4 = [] then Some [TStr s, m1, m2, m3, m4] else None)"

text \<open>The argument of \<^verbatim>\<open>new Spec(spec)\<close>; \<open>AObject\<close> is any other object.\<close>

datatype spec_arg =
  AUndefined
  | ANull
  | ABool bool
  | ANum int
  | AStr string
  | ASpec Spec
  | AArr "tok_like list"
  | AObject

fun truthy :: "spec_arg \<Rightarrow> bool" where
  "truthy AUndefined = False"
| "truthy ANull = False"
| "truthy (ABool b) = b"
| "truthy (ANum n) = (n \<noteq> 0)"
| "truthy (AStr s) = (s \<noteq> [])"
| "truthy (ASpec sp) = True"
| "truthy (AArr a) = True"
| "truthy AObject = True"

definition ZERO_toks :: "Stamp list" where
  "ZERO_toks = [Stamp_ZERO, Stamp_ZERO, Stamp_ZERO, Stamp_ZERO]"

text \<open>
  The loop of the string branch, \<^verbatim>\<open>for(let i=1; i<=4; i++)\<close>, over the indices still to
  visit. Its test is \<^verbatim>\<open>m[i]!==null\<close>.
\<close>

fun string_loop ::
  "tok_like list \<Rightarrow> nat list \<Rightarrow> Stamp list \<Rightarrow> heap \<Rightarrow> (error + Stamp list) \<times> heap" where
  "string_loop m [] ts h = (Inr ts, h)"
| "string_loop m (i # is) ts h =
     (if m ! i \<noteq> TNull then
        (case new_Stamp (m ! i) h of
           (Inl e, h') \<Rightarrow> (Inl e, h')
         | (Inr t, h') \<Rightarrow> string_loop m is (ts[i - 1 := t]) h')
      else string_loop m is ts h)"

text \<open>
  The loop of the array branch, \<^verbatim>\<open>for(let i=0; i<4; i++)\<close>: an element that is a token
  is kept as it is, anything else goes through \<^verbatim>\<open>new Stamp\<close>.
\<close>

fun array_loop ::
  "tok_like list \<Rightarrow> nat list \<Rightarrow> Stamp list \<Rightarrow> heap \<Rightarrow> (error + Stamp list) \<times> heap" where
  "array_loop spec [] ts h = (Inr ts, h)"
| "array_loop spec (i # is) ts h =
     (case spec ! i of
        TStamp tok \<Rightarrow> array_loop spec is (ts[i := tok]) h
      | tok \<Rightarrow>
          (case new_Stamp tok h of
             (Inl e, h') \<Rightarrow> (Inl e, h')
           | (Inr t, h') \<Rightarrow> array_loop spec is (ts[i := t]) h'))"

definition wrap_toks :: "(error + Stamp list) \<times> heap \<Rightarrow> (error + Spec) \<times> heap" where
  "wrap_toks r = (case r of (Inl e, h) \<Rightarrow> (Inl e, h) | (Inr ts, h) \<Rightarrow> (Inr \<lparr>toks = ts\<rparr>, h))"

definition new_Spec :: "spec_arg \<Rightarrow> heap \<Rightarrow> (error + Spec) \<times> heap" where
  "new_Spec spec h =
     (if \<not> truthy spec then (Inr \<lparr>toks = ZERO_toks\<rparr>, h)
      else case spec of
             AStr s \<Rightarrow>
               (case reSpec_exec s of
                  None \<Rightarrow> (Inl InvalidSpecifier, h)
                | Some m \<Rightarrow> wrap_toks (string_loop m [1, 2, 3, 4] ZERO_toks h))
           | ASpec sp \<Rightarrow> (Inr \<lparr>toks = toks sp\<rparr>, h)
           | AArr a \<Rightarrow>
               if length a = 4 then wrap_toks (array_loop a [0, 1, 2, 3] ZERO_toks h)
               else (Inl UnrecognizedSpecInput, h)
           | _ \<Rightarrow> (Inl UnrecognizedSpecInput, h))"

text \<open>\<^verbatim>\<open>Spec.NON_SPECIFIC_NOOP = new Spec()\<close>: no token is created.\<close>

definition NON_SPECIFIC_NOOP :: Spec where
  "NON_SPECIFIC_NOOP = \<lparr>toks = ZERO_toks\<rparr>"

subsection \<open>Accessors\<close>

definition Spec_type :: "Spec \<Rightarrow> string" where
  "Spec_type this = str (toks this ! 0)"

definition Spec_id :: "Spec \<Rightarrow> string" where
  "Spec_id this = str (toks this ! 1)"

definition Spec_stamp :: "Spec \<Rightarrow> string" where
  "Spec_stamp this = str (toks this ! 2)"

definition Spec_name :: "Spec \<Rightarrow> string" where
  "Spec_name this = str (toks this ! 3)"

definition Spec_Stamp :: "Spec \<Rightarrow> Stamp" where
  "Spec_Stamp this = toks this ! 2"

definition Spec_Name :: "Spec \<Rightarrow> Stamp" where
  "Spec_Name this = toks this ! 3"

definition Spec_origin :: "Spec \<Rightarrow> string option" where
  "Spec_origin this = Stamp_origin (Spec_Stamp this)"

text \<open>
  \<^verbatim>\<open>scope\<close> is \<^verbatim>\<open>this.name.origin\<close>: a property read on the string that the getter
  \<^verbatim>\<open>name\<close> returns. A string primitive has its \<^verbatim>\<open>length\<close> and the members of
  \<^verbatim>\<open>String.prototype\<close> and \<^verbatim>\<open>Object.prototype\<close>; reading any other name gives
  \<^verbatim>\<open>undefined\<close>.
\<close>

datatype prop_value = PUndefined | PNumber nat | PString string | PFunction

definition String_prototype :: "string list" where
  "String_prototype =
     [''at'', ''charAt'', ''charCodeAt'', ''codePointAt'', ''concat'', ''constructor'',
      ''endsWith'', ''includes'', ''indexOf'', ''lastIndexOf'', ''localeCompare'', ''match'',
      ''normalize'', ''padEnd'', ''padStart'', ''repeat'', ''replace'', ''search'', ''slice'',
      ''split'', ''startsWith'', ''substr'', ''substring'', ''toLowerCase'', ''toString'',
      ''toUpperCase'', ''trim'', ''valueOf'', ''hasOwnProperty'', ''isPrototypeOf'',
      ''propertyIsEnumerable'', ''toLocaleString'']"

definition string_property :: "string \<Rightarrow> string \<Rightarrow> prop_value" where
  "string_property s p =
     (if p = ''length'' then PNumber (length s)
      else if p \<in> set String_prototype then PFunction
      else PUndefined)"

definition Spec_scope :: "Spec \<Rightarrow> prop_value" where
  "Spec_scope this = string_property (Spec_name this) ''origin''"

subsection \<open>Serialization and blanking\<close>

text \<open>
  The loop of \<^verbatim>\<open>toString\<close>, \<^verbatim>\<open>for(var i=0; i<4; i++)\<close>, with \<open>ret\<close> the string built so
  far. The two tokens are compared with \<^verbatim>\<open>!==\<close>: they are objects, so this asks whether
  they are two different objects.
\<close>

fun toString_loop :: "Spec \<Rightarrow> Spec \<Rightarrow> nat list \<Rightarrow> string \<Rightarrow> string" where
  "toString_loop this defaults [] ret = ret"
| "toString_loop this defaults (i # is) ret =
     toString_loop this defaults is
       (if ref (toks this ! i) \<noteq> ref (toks defaults ! i) \<or> (i = 3 \<and> ret = [])
        then ret @ [quants ! i] @ Stamp_toString (toks this ! i)
        else ret)"

definition Spec_toString :: "Spec \<Rightarrow> Spec option \<Rightarrow> string" where
  "Spec_toString this defaults =
     (let d = (case defaults of None \<Rightarrow> NON_SPECIFIC_NOOP | Some d \<Rightarrow> d);
          ret = toString_loop this d [0, 1, 2, 3] []
      in if ret = [] then ''.0'' else ret)"

text \<open>
  \<^verbatim>\<open>blank(except)\<close>: a missing or empty \<open>except\<close> is the empty string;
  \<^verbatim>\<open>except.indexOf(q)===-1\<close> for a one-character \<open>q\<close> says that \<open>q\<close> does not occur in it.
  The result goes through the array branch of the constructor.
\<close>

fun blank_loop :: "string \<Rightarrow> nat list \<Rightarrow> Stamp list \<Rightarrow> Stamp list" where
  "blank_loop except [] ts = ts"
| "blank_loop except (i # is) ts =
     blank_loop except is (if quants ! i \<notin> set except then ts[i := Stamp_ZERO] else ts)"

definition Spec_blank :: "Spec \<Rightarrow> string option \<Rightarrow> heap \<Rightarrow> (error + Spec) \<times> heap" where
  "Spec_blank this except h =
     (let e = (case except of None \<Rightarrow> [] | Some x \<Rightarrow> if x = [] then [] else x)
      in new_Spec (AArr (map TStamp (blank_loop e [0, 1, 2, 3] (toks this)))) h)"

definition Spec_isEmpty :: "Spec \<Rightarrow> bool" where
  "Spec_isEmpty this = list_all Stamp_isEmpty (toks this)"

subsection \<open>Structural equality and the grammar, as the specification words them\<close>

text \<open>Two specifiers are structurally equal iff all four tokens are structurally equal.\<close>

definition Spec_equal :: "Spec \<Rightarrow> Spec \<Rightarrow> bool" where
  "Spec_equal a b = list_all2 Stamp_eq (toks a) (toks b)"

text \<open>
  The specifier grammar: up to four groups, a quant followed by a token, in the order of
  the quants, each optional. \<open>render gs\<close> is the string with the groups \<open>gs\<close>.
\<close>

fun render_group :: "char \<Rightarrow> tok_like \<Rightarrow> string" where
  "render_group q (TStr t) = q # t"
| "render_group q g = []"

definition render :: "tok_like list \<Rightarrow> string" where
  "render gs = concat (map (\<lambda>(q, g). render_group q g) (zip quants gs))"

fun group_ok :: "tok_like \<Rightarrow> bool" where
  "group_ok TUndefined = True"
| "group_ok (TStr t) = is_tok t"
| "group_ok g = False"

text \<open>The text of the token that the constructor makes of a capture group.\<close>

fun group_text :: "tok_like \<Rightarrow> string" where
  "group_text (TStr t) = t"
| "group_text g = ''0''"

text \<open>The characters of the argument of \<^verbatim>\<open>blank\<close>.\<close>

definition except_string :: "string option \<Rightarrow> string" where
  "except_string x = (case x of None \<Rightarrow> [] | Some e \<Rightarrow> e)"

text \<open>What can follow a token inside a specifier: nothing, or a character that is
  neither a digit nor the separator.\<close>

definition boundary :: "string \<Rightarrow> bool" where
  "boundary r = (case r of [] \<Rightarrow> True | c # r' \<Rightarrow> \<not> is64 c \<and> c \<noteq> CHR ''+'')"

text \<open>
  The grammar as a set of strings: the strings with four groups, each absent or a
  quant with a token.
\<close>

definition in_grammar :: "string \<Rightarrow> bool" where
  "in_grammar s =
     (\<exists>g1 g2 g3 g4. group_ok g1 \<and> group_ok g2 \<and> group_ok g3 \<and> group_ok g4
        \<and> s = render [g1, g2, g3, g4])"

text \<open>
  What the serializer emits for position \<open>i\<close> by comparison with the defaults: the quant
  and the text of the token, unless the token is the very object of the defaults.
\<close>

definition emitted :: "Spec \<Rightarrow> Spec \<Rightarrow> nat \<Rightarrow> string" where
  "emitted this d i =
     (if ref (toks this ! i) \<noteq> ref (toks d ! i) then [quants ! i] @ str (toks this ! i) else [])"

section \<open>Properties of the logical clock\<close>

lemma is64_simps:
  "is64 c = (c \<in> set ''0123456789ABCDEFGHIJKLMNOPQRSTUVWXYZ_abcdefghijklmnopqrstuvwxyz~'')"
  by (simp only: is64_def base64_def)

text \<open>
  C1: a clock whose counter is \<open>s\<close> observes (\<^verbatim>\<open>checkTimestamp\<close>) a timestamp that the
  timestamp grammar accepts and whose decoded sequence is \<open>k\<close>: the call returns \<^verbatim>\<open>true\<close>,
  the counter becomes \<open>k + 1\<close> when \<open>k \<ge> s\<close> and stays \<open>s\<close> when \<open>k < s\<close>; the process id
  is untouched.
\<close>

theorem checkTimestamp_merge:
  assumes "parseTimestamp b64 lts ts = Inr parsed" and "ts_seq parsed = k" and "seq c = s"
  shows "checkTimestamp b64 lts c ts =
           (Inr True, c\<lparr>seq := (if k \<ge> s then k + 1 else s)\<rparr>)"
  using assms by (simp add: checkTimestamp_def)

theorem checkTimestamp_merge_witness:
  "checkTimestamp spec_base64 spec_LamportTimestamp \<lparr>clock_id = ''me'', seq = 3\<rparr> ''00007+gritzko''
     = (Inr True, \<lparr>clock_id = ''me'', seq = 8\<rparr>)
   \<and> checkTimestamp spec_base64 spec_LamportTimestamp \<lparr>clock_id = ''me'', seq = 9\<rparr> ''00007+gritzko''
     = (Inr True, \<lparr>clock_id = ''me'', seq = 9\<rparr>)"
proof -
  have p: "parseTimestamp spec_base64 spec_LamportTimestamp ''00007+gritzko''
             = Inr \<lparr>ts_seq = 7, ts_process = ''gritzko''\<rparr>"
    by (simp add: parseTimestamp_def spec_LamportTimestamp_def spec_base64_def
        spec_reTokExt_def spec_reTok_def spec_base2int_def is64_simps base64_def)
  show ?thesis
    using checkTimestamp_merge [OF p, of 7 "\<lparr>clock_id = ''me'', seq = 3\<rparr>" 3]
      checkTimestamp_merge [OF p, of 7 "\<lparr>clock_id = ''me'', seq = 9\<rparr>" 9]
    by simp
qed

text \<open>
  The claim "for every input string \<open>ts\<close>, \<^verbatim>\<open>checkTimestamp\<close> succeeds" fails on the
  code: \<^verbatim>\<open>checkTimestamp\<close> starts with \<^verbatim>\<open>this.parseTimestamp(ts)\<close>, which throws on a
  string the timestamp grammar rejects. With the grammar of the specification, the
  one-character string \<open>!\<close> is such a string.
\<close>

theorem checkTimestamp_rejects_counterexample:
  "checkTimestamp spec_base64 spec_LamportTimestamp \<lparr>clock_id = ''me'', seq = 3\<rparr> ''!''
     = (Inl MalformedTimestamp, \<lparr>clock_id = ''me'', seq = 3\<rparr>)"
  by (simp add: checkTimestamp_def parseTimestamp_def spec_LamportTimestamp_def
      spec_reTokExt_def is64_simps)

text \<open>
  C3 (amended): \<^verbatim>\<open>checkTimestamp\<close> succeeds, returning \<^verbatim>\<open>true\<close>, on every string that
  the timestamp grammar matches, whatever its sequence number and process; on every
  other string it raises the malformed-timestamp error of \<^verbatim>\<open>parseTimestamp\<close> and
  leaves the clock as it was.
\<close>

theorem checkTimestamp_succeeds_iff_matches:
  "(reTokExt lts ts \<noteq> None \<longrightarrow> fst (checkTimestamp b64 lts c ts) = Inr True)
   \<and> (reTokExt lts ts = None \<longrightarrow> checkTimestamp b64 lts c ts = (Inl MalformedTimestamp, c))"
  by (auto simp: checkTimestamp_def parseTimestamp_def split: option.splits)

theorem checkTimestamp_succeeds_iff_matches_witness:
  "reTokExt spec_LamportTimestamp ''7AMTc+gritzko'' \<noteq> None
   \<and> fst (checkTimestamp spec_base64 spec_LamportTimestamp \<lparr>clock_id = ''me'', seq = 3\<rparr>
            ''7AMTc+gritzko'') = Inr True
   \<and> reTokExt spec_LamportTimestamp ''7AMTc'' = None
   \<and> checkTimestamp spec_base64 spec_LamportTimestamp \<lparr>clock_id = ''me'', seq = 3\<rparr> ''7AMTc''
       = (Inl MalformedTimestamp, \<lparr>clock_id = ''me'', seq = 3\<rparr>)"
proof -
  have a: "reTokExt spec_LamportTimestamp ''7AMTc+gritzko'' \<noteq> None"
    by (simp add: spec_LamportTimestamp_def spec_reTokExt_def spec_reTok_def is64_simps)
  have b: "reTokExt spec_LamportTimestamp ''7AMTc'' = None"
    by (simp add: spec_LamportTimestamp_def spec_reTokExt_def spec_reTok_def is64_simps)
  show ?thesis
    using a b
      checkTimestamp_succeeds_iff_matches [of spec_LamportTimestamp "''7AMTc+gritzko''"
        spec_base64 "\<lparr>clock_id = ''me'', seq = 3\<rparr>"]
      checkTimestamp_succeeds_iff_matches [of spec_LamportTimestamp "''7AMTc''"
        spec_base64 "\<lparr>clock_id = ''me'', seq = 3\<rparr>"]
    by simp
qed

subsection \<open>The invariant of the clock state\<close>

lemma clock_step_id: "clock_id (clock_step b64 lts c op) = clock_id c"
  by (cases op)
    (simp_all add: adjustTime_def issueTimestamp_def checkTimestamp_def time2date_def
      split: sum.splits)

lemma clock_step_seq: "seq c \<le> seq (clock_step b64 lts c op)"
  by (cases op)
    (simp_all add: adjustTime_def issueTimestamp_def checkTimestamp_def time2date_def
      split: sum.splits)

lemma clock_steps_inv:
  "clock_id (foldl (clock_step b64 lts) c ops) = clock_id c
   \<and> seq c \<le> seq (foldl (clock_step b64 lts) c ops)"
proof (induction ops arbitrary: c)
  case Nil
  show ?case by simp
next
  case (Cons op ops)
  have "seq c \<le> seq (clock_step b64 lts c op)"
    by (rule clock_step_seq)
  also have "\<dots> \<le> seq (foldl (clock_step b64 lts) (clock_step b64 lts c op) ops)"
    using Cons.IH by blast
  finally show ?case
    using Cons.IH [of "clock_step b64 lts c op"] by (simp add: clock_step_id)
qed

text \<open>
  C9: every operation of the clock (\<^verbatim>\<open>issueTimestamp\<close>, \<^verbatim>\<open>checkTimestamp\<close>,
  \<^verbatim>\<open>parseTimestamp\<close>, \<^verbatim>\<open>adjustTime\<close>, \<^verbatim>\<open>time2date\<close>), whether it returns or throws,
  leaves the process id as it was and the counter at least as large as before; so does
  every sequence of operations.
\<close>

theorem clock_invariant:
  "clock_id (clock_step b64 lts c op) = clock_id c
   \<and> seq c \<le> seq (clock_step b64 lts c op)
   \<and> clock_id (foldl (clock_step b64 lts) c ops) = clock_id c
   \<and> seq c \<le> seq (foldl (clock_step b64 lts) c ops)"
  using clock_step_id [of b64 lts c op] clock_step_seq [of c b64 lts op]
    clock_steps_inv [of b64 lts c ops]
  by simp

text \<open>
  The invariant along a run that issues a timestamp, observes a later one, observes a
  malformed one and issues again.
\<close>

theorem clock_invariant_witness:
  "foldl (clock_step spec_base64 spec_LamportTimestamp) \<lparr>clock_id = ''me'', seq = 0\<rparr>
     [IssueTimestamp, CheckTimestamp ''00007+gritzko'', CheckTimestamp ''!'', IssueTimestamp]
     = \<lparr>clock_id = ''me'', seq = 9\<rparr>
   \<and> clock_id (foldl (clock_step spec_base64 spec_LamportTimestamp) \<lparr>clock_id = ''me'', seq = 0\<rparr>
     [IssueTimestamp, CheckTimestamp ''00007+gritzko'', CheckTimestamp ''!'', IssueTimestamp])
     = ''me''
   \<and> 0 \<le> seq (foldl (clock_step spec_base64 spec_LamportTimestamp) \<lparr>clock_id = ''me'', seq = 0\<rparr>
     [IssueTimestamp, CheckTimestamp ''00007+gritzko'', CheckTimestamp ''!'', IssueTimestamp])"
proof -
  have r: "foldl (clock_step spec_base64 spec_LamportTimestamp) \<lparr>clock_id = ''me'', seq = 0\<rparr>
     [IssueTimestamp, CheckTimestamp ''00007+gritzko'', CheckTimestamp ''!'', IssueTimestamp]
     = \<lparr>clock_id = ''me'', seq = 9\<rparr>"
    by code_simp
  from clock_invariant [of spec_base64 spec_LamportTimestamp "\<lparr>clock_id = ''me'', seq = 0\<rparr>"
      IssueTimestamp
      "[IssueTimestamp, CheckTimestamp ''00007+gritzko'', CheckTimestamp ''!'', IssueTimestamp]"]
  have "clock_id (foldl (clock_step spec_base64 spec_LamportTimestamp)
          \<lparr>clock_id = ''me'', seq = 0\<rparr>
          [IssueTimestamp, CheckTimestamp ''00007+gritzko'', CheckTimestamp ''!'', IssueTimestamp])
        = ''me''"
    by simp
  with r show ?thesis by simp
qed

subsection \<open>Issuing timestamps\<close>

lemma issue_n_general:
  "issue_n b64 n c =
     (map (\<lambda>k. int2base b64 k 5 @ ''+'' @ clock_id c) [seq c ..< seq c + n],
      c\<lparr>seq := seq c + n\<rparr>)"
proof (induction n arbitrary: c)
  case 0
  show ?case by simp
next
  case (Suc n)
  have "[seq c ..< seq c + Suc n] = seq c # [Suc (seq c) ..< Suc (seq c) + n]"
    by (simp add: upt_conv_Cons)
  then show ?case
    by (simp add: Suc.IH issueTimestamp_def Let_def)
qed

lemma index_of_nth: "distinct xs \<Longrightarrow> i < length xs \<Longrightarrow> index_of (xs ! i) xs = i"
proof (induction xs arbitrary: i)
  case Nil
  then show ?case by simp
next
  case (Cons x xs)
  show ?case
  proof (cases i)
    case 0
    then show ?thesis by simp
  next
    case (Suc j)
    with Cons.prems have "xs ! j \<in> set xs" "x \<notin> set xs" by auto
    then have "x \<noteq> xs ! j" by blast
    with Cons Suc show ?thesis by simp
  qed
qed

lemma length_base64: "length base64 = 64"
  by (simp add: base64_def)

lemma distinct_base64: "distinct base64"
  by (simp add: base64_def)

lemma spec_codec_roundtrip: "spec_base2int (spec_int2base k w) = k mod 64 ^ w"
proof (induction w arbitrary: k)
  case 0
  show ?case by (simp add: spec_base2int_def)
next
  case (Suc w)
  have d: "index_of (base64 ! (k mod 64)) base64 = k mod 64"
    by (rule index_of_nth) (simp_all add: distinct_base64 length_base64)
  have "spec_base2int (spec_int2base k (Suc w))
          = spec_base2int (spec_int2base (k div 64) w) * 64 + k mod 64"
    by (simp add: spec_base2int_def d)
  also have "\<dots> = (k div 64 mod 64 ^ w) * 64 + k mod 64"
    by (simp add: Suc.IH)
  also have "\<dots> = k mod 64 ^ Suc w"
    by (simp add: mod_mult2_eq)
  finally show ?case .
qed

lemma spec_int2base_is64: "list_all is64 (spec_int2base k w)"
  by (induction w arbitrary: k) (simp_all add: is64_def length_base64)

lemma length_spec_int2base: "length (spec_int2base k w) = w"
  by (induction w arbitrary: k) simp_all

lemma not_is64_plus: "\<not> is64 CHR ''+''"
  by (simp add: is64_simps)

lemma spec_reTokExt_compose:
  assumes "list_all is64 m1" and "m1 \<noteq> []" and "spec_reTok m2"
  shows "spec_reTokExt (m1 @ ''+'' @ m2) = Some (m1, m2)"
proof -
  have t: "takeWhile is64 (m1 @ CHR ''+'' # m2) = m1"
    using assms(1) not_is64_plus by (simp add: takeWhile_append2 list_all_iff)
  have d: "dropWhile is64 (m1 @ CHR ''+'' # m2) = CHR ''+'' # m2"
    using assms(1) not_is64_plus by (simp add: dropWhile_append2 list_all_iff)
  show ?thesis
    using assms(2,3) by (simp add: spec_reTokExt_def t d)
qed

lemma spec_codec_contract:
  assumes "spec_reTok p" and "k < 64 ^ 5"
  shows "parseTimestamp spec_base64 spec_LamportTimestamp
           (int2base spec_base64 k 5 @ ''+'' @ p) = Inr \<lparr>ts_seq = k, ts_process = p\<rparr>"
proof -
  have n: "spec_int2base k 5 \<noteq> []"
    using length_spec_int2base [of k 5] by auto
  have "spec_reTokExt (spec_int2base k 5 @ ''+'' @ p) = Some (spec_int2base k 5, p)"
    using spec_int2base_is64 n assms(1) by (rule spec_reTokExt_compose)
  moreover have "spec_base2int (spec_int2base k 5) = k"
    using assms(2) by (simp add: spec_codec_roundtrip)
  ultimately show ?thesis
    by (simp add: parseTimestamp_def spec_base64_def spec_LamportTimestamp_def)
qed

text \<open>
  C4: on a clock constructed with an accepted process id \<open>p\<close>, every call of
  \<^verbatim>\<open>issueTimestamp\<close> returns the 5-digit encoding (\<^verbatim>\<open>int2base(seq, 5)\<close>) of the counter
  before the call, then \<open>+\<close>, then \<open>p\<close>, and adds exactly 1 to the counter. Hence \<open>n\<close>
  consecutive calls on the fresh clock return the encodings of \<open>0, 1, ..., n - 1\<close> in
  this order, and where the decoder inverts the encoder on these values (the contract of
  the codec), the timestamps decode to the sequence numbers \<open>0, 1, ..., n - 1\<close> with
  process \<open>p\<close>; the counter is \<open>n\<close> afterwards.
\<close>

theorem issueTimestamp_sequence:
  assumes "new_LamportClock b64 p = Inr c0"
    and "\<forall>k<n. parseTimestamp b64 lts (int2base b64 k 5 @ ''+'' @ p)
                  = Inr \<lparr>ts_seq = k, ts_process = p\<rparr>"
  shows "(\<forall>c. clock_id c = p \<longrightarrow>
            issueTimestamp b64 c = (int2base b64 (seq c) 5 @ ''+'' @ p, c\<lparr>seq := seq c + 1\<rparr>))
         \<and> fst (issue_n b64 n c0) = map (\<lambda>k. int2base b64 k 5 @ ''+'' @ p) [0..<n]
         \<and> map (parseTimestamp b64 lts) (fst (issue_n b64 n c0))
             = map (\<lambda>k. Inr \<lparr>ts_seq = k, ts_process = p\<rparr>) [0..<n]
         \<and> snd (issue_n b64 n c0) = \<lparr>clock_id = p, seq = n\<rparr>"
proof -
  from assms(1) have c0: "c0 = \<lparr>clock_id = p, seq = 0\<rparr>"
    by (simp add: new_LamportClock_def split: if_splits)
  have 1: "\<forall>c. clock_id c = p \<longrightarrow>
            issueTimestamp b64 c = (int2base b64 (seq c) 5 @ ''+'' @ p, c\<lparr>seq := seq c + 1\<rparr>)"
    by (simp add: issueTimestamp_def)
  have 2: "fst (issue_n b64 n c0) = map (\<lambda>k. int2base b64 k 5 @ ''+'' @ p) [0..<n]"
    by (simp add: issue_n_general c0)
  have 3: "map (parseTimestamp b64 lts) (fst (issue_n b64 n c0))
             = map (\<lambda>k. Inr \<lparr>ts_seq = k, ts_process = p\<rparr>) [0..<n]"
    using assms(2) by (simp add: 2)
  have 4: "snd (issue_n b64 n c0) = \<lparr>clock_id = p, seq = n\<rparr>"
    by (simp add: issue_n_general c0)
  from 1 2 3 4 show ?thesis by blast
qed

theorem issueTimestamp_sequence_witness:
  "new_LamportClock spec_base64 ''gritzko'' = Inr \<lparr>clock_id = ''gritzko'', seq = 0\<rparr>
   \<and> fst (issue_n spec_base64 3 \<lparr>clock_id = ''gritzko'', seq = 0\<rparr>)
       = [''00000+gritzko'', ''00001+gritzko'', ''00002+gritzko'']
   \<and> map (parseTimestamp spec_base64 spec_LamportTimestamp)
          (fst (issue_n spec_base64 3 \<lparr>clock_id = ''gritzko'', seq = 0\<rparr>))
       = [Inr \<lparr>ts_seq = 0, ts_process = ''gritzko''\<rparr>,
          Inr \<lparr>ts_seq = 1, ts_process = ''gritzko''\<rparr>,
          Inr \<lparr>ts_seq = 2, ts_process = ''gritzko''\<rparr>]
   \<and> snd (issue_n spec_base64 3 \<lparr>clock_id = ''gritzko'', seq = 0\<rparr>)
       = \<lparr>clock_id = ''gritzko'', seq = 3\<rparr>"
proof -
  have p: "spec_reTok ''gritzko''"
    by (simp add: spec_reTok_def is64_simps)
  have a: "new_LamportClock spec_base64 ''gritzko'' = Inr \<lparr>clock_id = ''gritzko'', seq = 0\<rparr>"
    using p by (simp add: new_LamportClock_def spec_base64_def)
  have b: "\<forall>k<3. parseTimestamp spec_base64 spec_LamportTimestamp
                    (int2base spec_base64 k 5 @ ''+'' @ ''gritzko'')
                  = Inr \<lparr>ts_seq = k, ts_process = ''gritzko''\<rparr>"
    using spec_codec_contract [OF p] by simp
  have e: "map (\<lambda>k. int2base spec_base64 k 5 @ ''+'' @ ''gritzko'') [0..<3]
             = [''00000+gritzko'', ''00001+gritzko'', ''00002+gritzko'']"
    by code_simp
  have u: "[0..<3] = [0, 1, 2::nat]"
    by code_simp
  note T = issueTimestamp_sequence [OF a b]
  have f: "fst (issue_n spec_base64 3 \<lparr>clock_id = ''gritzko'', seq = 0\<rparr>)
       = [''00000+gritzko'', ''00001+gritzko'', ''00002+gritzko'']"
    by (simp only: T e)
  have m: "map (parseTimestamp spec_base64 spec_LamportTimestamp)
          (fst (issue_n spec_base64 3 \<lparr>clock_id = ''gritzko'', seq = 0\<rparr>))
       = [Inr \<lparr>ts_seq = 0, ts_process = ''gritzko''\<rparr>,
          Inr \<lparr>ts_seq = 1, ts_process = ''gritzko''\<rparr>,
          Inr \<lparr>ts_seq = 2, ts_process = ''gritzko''\<rparr>]"
  proof -
    have "map (parseTimestamp spec_base64 spec_LamportTimestamp)
            (fst (issue_n spec_base64 3 \<lparr>clock_id = ''gritzko'', seq = 0\<rparr>))
          = map (\<lambda>k. Inr \<lparr>ts_seq = k, ts_process = ''gritzko''\<rparr>) [0..<3]"
      using T by blast
    then show ?thesis by (simp only: u list.map)
  qed
  have s: "snd (issue_n spec_base64 3 \<lparr>clock_id = ''gritzko'', seq = 0\<rparr>)
       = \<lparr>clock_id = ''gritzko'', seq = 3\<rparr>"
    using T by blast
  from a f m s show ?thesis by blast
qed

section \<open>Properties of the specifier\<close>

subsection \<open>Blanking and the empty specifier\<close>

lemma length4E:
  assumes "length xs = 4"
  obtains a b c d where "xs = [a, b, c, d]"
proof -
  from assms have "length xs = Suc (Suc (Suc (Suc 0)))" by simp
  then show thesis
    by (auto simp: length_Suc_conv intro: that)
qed

lemma less4: "(i::nat) < 4 \<longleftrightarrow> i = 0 \<or> i = 1 \<or> i = 2 \<or> i = 3"
  by auto

lemma quants_nth:
  "quants ! 0 = CHR ''/''" "quants ! 1 = CHR ''#''" "quants ! 2 = CHR ''!''" "quants ! 3 = CHR ''.''"
  "quants ! Suc 0 = CHR ''#''"
  by (simp_all add: quants_def)

lemma array_loop_stamps:
  "array_loop [TStamp a, TStamp b, TStamp c, TStamp d] [0, 1, 2, 3] ZERO_toks h
     = (Inr [a, b, c, d], h)"
  by (simp add: ZERO_toks_def numeral_2_eq_2 numeral_3_eq_3)

lemma new_Spec_stamps:
  "new_Spec (AArr [TStamp a, TStamp b, TStamp c, TStamp d]) h = (Inr \<lparr>toks = [a, b, c, d]\<rparr>, h)"
  by (simp add: new_Spec_def wrap_toks_def ZERO_toks_def numeral_2_eq_2 numeral_3_eq_3)

lemma blank_loop_4:
  "blank_loop e [0, 1, 2, 3] [a, b, c, d] =
     [if CHR ''/'' \<in> set e then a else Stamp_ZERO,
      if CHR ''#'' \<in> set e then b else Stamp_ZERO,
      if CHR ''!'' \<in> set e then c else Stamp_ZERO,
      if CHR ''.'' \<in> set e then d else Stamp_ZERO]"
  by (simp add: quants_def numeral_2_eq_2 numeral_3_eq_3)

lemma Spec_blank_4:
  "Spec_blank \<lparr>toks = [a, b, c, d]\<rparr> x h =
     (Inr \<lparr>toks = [if CHR ''/'' \<in> set (except_string x) then a else Stamp_ZERO,
                   if CHR ''#'' \<in> set (except_string x) then b else Stamp_ZERO,
                   if CHR ''!'' \<in> set (except_string x) then c else Stamp_ZERO,
                   if CHR ''.'' \<in> set (except_string x) then d else Stamp_ZERO]\<rparr>, h)"
proof -
  have e: "(case x of None \<Rightarrow> [] | Some y \<Rightarrow> if y = [] then [] else y) = except_string x"
    by (simp add: except_string_def split: option.splits)
  show ?thesis
    unfolding Spec_blank_def Let_def e blank_loop_4 Spec.simps
    by (simp only: list.map new_Spec_stamps)
qed

text \<open>
  C8: for every specifier \<open>a\<close> (four tokens) and every set of quant characters \<open>x\<close>,
  \<^verbatim>\<open>a.blank(x)\<close> succeeds, creates no token, and returns a specifier in which every
  position whose quant is not in \<open>x\<close> is the zero sentinel \<^verbatim>\<open>Stamp.ZERO\<close> and every position
  whose quant is in \<open>x\<close> holds the token of \<open>a\<close> unchanged. Blanking the result again with
  \<open>x\<close> returns the same specifier, so \<^verbatim>\<open>blank\<close> is idempotent up to structural equality.
\<close>

theorem blank_zeroes_and_idempotent:
  assumes "length (toks a) = 4"
  shows "\<exists>b. Spec_blank a x h = (Inr b, h)
           \<and> length (toks b) = 4
           \<and> (\<forall>i<4. toks b ! i =
                 (if quants ! i \<in> set (except_string x) then toks a ! i else Stamp_ZERO))
           \<and> Spec_blank b x h = (Inr b, h)
           \<and> Spec_equal b b"
proof -
  obtain t0 t1 t2 t3 where ts: "toks a = [t0, t1, t2, t3]"
    using assms by (rule length4E)
  then have a: "a = \<lparr>toks = [t0, t1, t2, t3]\<rparr>"
    by (cases a) simp
  let ?E = "set (except_string x)"
  let ?b = "\<lparr>toks = [if CHR ''/'' \<in> ?E then t0 else Stamp_ZERO,
                      if CHR ''#'' \<in> ?E then t1 else Stamp_ZERO,
                      if CHR ''!'' \<in> ?E then t2 else Stamp_ZERO,
                      if CHR ''.'' \<in> ?E then t3 else Stamp_ZERO]\<rparr>"
  have 1: "Spec_blank a x h = (Inr ?b, h)"
    unfolding a by (rule Spec_blank_4)
  have 2: "length (toks ?b) = 4"
    by simp
  have 3: "\<forall>i<4. toks ?b ! i = (if quants ! i \<in> ?E then toks a ! i else Stamp_ZERO)"
    by (simp add: less4 ts quants_nth)
  have 4: "Spec_blank ?b x h = (Inr ?b, h)"
    by (simp add: Spec_blank_4)
  have 5: "Spec_equal ?b ?b"
    by (simp add: Spec_equal_def Stamp_eq_def)
  from 1 2 3 4 5 show ?thesis by blast
qed

text \<open>The theorem on blanking at the specifier of a to-do item, keeping type and id.\<close>

theorem blank_zeroes_and_idempotent_witness:
  "length (toks \<lparr>toks = [\<lparr>ref = 1, str = ''TodoItem''\<rparr>, \<lparr>ref = 2, str = ''7AM0f+gritzko''\<rparr>,
                         \<lparr>ref = 3, str = ''7AMTc+gritzko''\<rparr>, \<lparr>ref = 4, str = ''done''\<rparr>]\<rparr>) = 4
   \<and> Spec_blank \<lparr>toks = [\<lparr>ref = 1, str = ''TodoItem''\<rparr>, \<lparr>ref = 2, str = ''7AM0f+gritzko''\<rparr>,
                         \<lparr>ref = 3, str = ''7AMTc+gritzko''\<rparr>, \<lparr>ref = 4, str = ''done''\<rparr>]\<rparr>
        (Some ''/#'') 4
      = (Inr \<lparr>toks = [\<lparr>ref = 1, str = ''TodoItem''\<rparr>, \<lparr>ref = 2, str = ''7AM0f+gritzko''\<rparr>,
                       Stamp_ZERO, Stamp_ZERO]\<rparr>, 4)
   \<and> Spec_blank \<lparr>toks = [\<lparr>ref = 1, str = ''TodoItem''\<rparr>, \<lparr>ref = 2, str = ''7AM0f+gritzko''\<rparr>,
                       Stamp_ZERO, Stamp_ZERO]\<rparr> (Some ''/#'') 4
      = (Inr \<lparr>toks = [\<lparr>ref = 1, str = ''TodoItem''\<rparr>, \<lparr>ref = 2, str = ''7AM0f+gritzko''\<rparr>,
                       Stamp_ZERO, Stamp_ZERO]\<rparr>, 4)"
proof -
  let ?a = "\<lparr>toks = [\<lparr>ref = 1, str = ''TodoItem''\<rparr>, \<lparr>ref = 2, str = ''7AM0f+gritzko''\<rparr>,
                         \<lparr>ref = 3, str = ''7AMTc+gritzko''\<rparr>, \<lparr>ref = 4, str = ''done''\<rparr>]\<rparr>"
  let ?b = "\<lparr>toks = [\<lparr>ref = 1, str = ''TodoItem''\<rparr>, \<lparr>ref = 2, str = ''7AM0f+gritzko''\<rparr>,
                       Stamp_ZERO, Stamp_ZERO]\<rparr>"
  have l: "length (toks ?a) = 4" by simp
  have c: "Spec_blank ?a (Some ''/#'') 4 = (Inr ?b, 4)"
    by (simp add: Spec_blank_4 except_string_def)
  from blank_zeroes_and_idempotent [OF l, of "Some ''/#''" 4] obtain b where
    b: "Spec_blank ?a (Some ''/#'') 4 = (Inr b, 4)" "Spec_blank b (Some ''/#'') 4 = (Inr b, 4)"
    by blast
  from b(1) c have "b = ?b" by simp
  with b(2) have "Spec_blank ?b (Some ''/#'') 4 = (Inr ?b, 4)" by simp
  with l c show ?thesis by blast
qed

text \<open>
  C10: constructing a specifier from a falsy argument, \<^verbatim>\<open>undefined\<close>, \<^verbatim>\<open>null\<close>, \<^verbatim>\<open>false\<close>,
  \<^verbatim>\<open>0\<close> or the empty string, succeeds and gives the empty specifier: all four positions
  are the zero sentinel \<^verbatim>\<open>Stamp.ZERO\<close> itself, and \<^verbatim>\<open>isEmpty\<close> holds. No token is created
  (the heap is as before), which the string branch would do: the empty string does
  not go through the match of the grammar.
\<close>

theorem new_Spec_falsy:
  "new_Spec AUndefined h = (Inr NON_SPECIFIC_NOOP, h)
   \<and> new_Spec ANull h = (Inr NON_SPECIFIC_NOOP, h)
   \<and> new_Spec (ABool False) h = (Inr NON_SPECIFIC_NOOP, h)
   \<and> new_Spec (ANum 0) h = (Inr NON_SPECIFIC_NOOP, h)
   \<and> new_Spec (AStr []) h = (Inr NON_SPECIFIC_NOOP, h)
   \<and> toks NON_SPECIFIC_NOOP = [Stamp_ZERO, Stamp_ZERO, Stamp_ZERO, Stamp_ZERO]
   \<and> Spec_isEmpty NON_SPECIFIC_NOOP"
  by (simp add: new_Spec_def NON_SPECIFIC_NOOP_def ZERO_toks_def Spec_isEmpty_def
      Stamp_isEmpty_def Stamp_ZERO_def)

text \<open>The theorem on falsy arguments in the heap in which no token has been created.\<close>

theorem new_Spec_falsy_witness:
  "new_Spec AUndefined 0 = (Inr \<lparr>toks = [Stamp_ZERO, Stamp_ZERO, Stamp_ZERO, Stamp_ZERO]\<rparr>, 0)
   \<and> new_Spec (AStr []) 0 = (Inr \<lparr>toks = [Stamp_ZERO, Stamp_ZERO, Stamp_ZERO, Stamp_ZERO]\<rparr>, 0)
   \<and> new_Spec (AStr ''.0'') 0
       = (Inr \<lparr>toks = [\<lparr>ref = 1, str = ''0''\<rparr>, \<lparr>ref = 2, str = ''0''\<rparr>,
                        \<lparr>ref = 3, str = ''0''\<rparr>, \<lparr>ref = 4, str = ''0''\<rparr>]\<rparr>, 4)"
proof -
  have n: "NON_SPECIFIC_NOOP = \<lparr>toks = [Stamp_ZERO, Stamp_ZERO, Stamp_ZERO, Stamp_ZERO]\<rparr>"
    by (simp add: NON_SPECIFIC_NOOP_def ZERO_toks_def)
  have s: "new_Spec (AStr ''.0'') 0
       = (Inr \<lparr>toks = [\<lparr>ref = 1, str = ''0''\<rparr>, \<lparr>ref = 2, str = ''0''\<rparr>,
                        \<lparr>ref = 3, str = ''0''\<rparr>, \<lparr>ref = 4, str = ''0''\<rparr>]\<rparr>, 4)"
    by code_simp
  from new_Spec_falsy [of 0] have
    "new_Spec AUndefined 0 = (Inr NON_SPECIFIC_NOOP, 0)"
    "new_Spec (AStr []) 0 = (Inr NON_SPECIFIC_NOOP, 0)"
    by simp_all
  with s show ?thesis
    unfolding n by simp
qed

subsection \<open>The token grammar\<close>

lemma takeWhile_run:
  "list_all P xs \<Longrightarrow> ys = [] \<or> \<not> P (hd ys) \<Longrightarrow> takeWhile P (xs @ ys) = xs"
  by (cases ys) (auto simp: list_all_iff)

lemma dropWhile_run:
  "list_all P xs \<Longrightarrow> ys = [] \<or> \<not> P (hd ys) \<Longrightarrow> dropWhile P (xs @ ys) = ys"
  by (cases ys) (auto simp: list_all_iff)

lemma list_all_takeWhile: "list_all P (takeWhile P xs)"
  by (induction xs) simp_all

lemma dropWhile_head: "dropWhile P xs = c # r \<Longrightarrow> \<not> P c"
  using hd_dropWhile [of P xs] by auto

lemma not_is64_quant:
  "\<not> is64 CHR ''/''" "\<not> is64 CHR ''#''" "\<not> is64 CHR ''!''" "\<not> is64 CHR ''.''"
  "\<not> is64 CHR ''+''"
  by (simp_all add: is64_simps)

lemma match_tok_bare:
  assumes "list_all is64 v" and "v \<noteq> []" and "boundary r"
  shows "match_tok (v @ r) = Some (v, r)"
proof -
  from assms(3) have b: "r = [] \<or> \<not> is64 (hd r)"
    by (cases r) (simp_all add: boundary_def)
  have t: "takeWhile is64 (v @ r) = v" and d: "dropWhile is64 (v @ r) = r"
    using assms(1) b by (simp_all add: takeWhile_run dropWhile_run)
  show ?thesis
    using assms(2,3) by (simp add: match_tok_def t d boundary_def split: list.splits)
qed

lemma match_tok_ext:
  assumes "list_all is64 v" and "v \<noteq> []" and "list_all is64 og" and "og \<noteq> []"
    and "boundary r"
  shows "match_tok (v @ CHR ''+'' # og @ r) = Some (v @ CHR ''+'' # og, r)"
proof -
  from assms(5) have b: "r = [] \<or> \<not> is64 (hd r)"
    by (cases r) (simp_all add: boundary_def)
  have t: "takeWhile is64 (v @ CHR ''+'' # og @ r) = v"
    and d: "dropWhile is64 (v @ CHR ''+'' # og @ r) = CHR ''+'' # og @ r"
    using assms(1) not_is64_quant(5) by (simp_all add: takeWhile_run dropWhile_run)
  have t': "takeWhile is64 (og @ r) = og" and d': "dropWhile is64 (og @ r) = r"
    using assms(3) b by (simp_all add: takeWhile_run dropWhile_run)
  show ?thesis
    using assms(2,4) by (simp add: match_tok_def t d t' d')
qed

lemma match_tok_shape:
  assumes "match_tok s = Some (t, r)"
  shows "s = t @ r
         \<and> ((list_all is64 t \<and> t \<noteq> [])
            \<or> (\<exists>v og. t = v @ CHR ''+'' # og \<and> list_all is64 v \<and> v \<noteq> []
                  \<and> list_all is64 og \<and> og \<noteq> []))"
proof -
  let ?v = "takeWhile is64 s" and ?r = "dropWhile is64 s"
  have s: "s = ?v @ ?r" by simp
  have v: "list_all is64 ?v" by (rule list_all_takeWhile)
  from assms have ne: "?v \<noteq> []"
    by (auto simp: match_tok_def Let_def split: if_splits)
  show ?thesis
  proof (cases ?r)
    case Nil
    with assms ne have "t = ?v" "r = []"
      by (simp_all add: match_tok_def Let_def)
    with s v ne Nil show ?thesis by simp
  next
    case (Cons c r')
    let ?og = "takeWhile is64 r'"
    show ?thesis
    proof (cases "c = CHR ''+'' \<and> ?og \<noteq> []")
      case True
      with assms ne Cons have tr: "t = ?v @ CHR ''+'' # ?og" "r = dropWhile is64 r'"
        by (simp_all add: match_tok_def Let_def)
      have "s = ?v @ c # r'" using s Cons by simp
      also have "\<dots> = ?v @ CHR ''+'' # ?og @ dropWhile is64 r'"
        using True by simp
      finally have "s = t @ r" using tr by simp
      moreover have "list_all is64 ?og" by (rule list_all_takeWhile)
      ultimately show ?thesis using tr v ne True by blast
    next
      case False
      with assms ne Cons have "t = ?v" "r = ?r"
        by (auto simp: match_tok_def Let_def split: if_splits)
      with s v ne show ?thesis by simp
    qed
  qed
qed

lemma is_tok_boundary:
  assumes "is_tok t" and "boundary r"
  shows "match_tok (t @ r) = Some (t, r)"
proof -
  from assms(1) have "match_tok t = Some (t, [])"
    by (simp add: is_tok_def)
  from match_tok_shape [OF this]
  consider "list_all is64 t" "t \<noteq> []"
    | v og where "t = v @ CHR ''+'' # og" "list_all is64 v" "v \<noteq> []"
        "list_all is64 og" "og \<noteq> []"
    by blast
  then show ?thesis
  proof cases
    case 1
    then show ?thesis using assms(2) by (rule match_tok_bare)
  next
    case 2
    then show ?thesis using match_tok_ext [of v og r] assms(2) by simp
  qed
qed

lemma match_tok_is_tok:
  assumes "match_tok s = Some (t, r)"
  shows "is_tok t"
proof -
  have b: "boundary []" by (simp add: boundary_def)
  from match_tok_shape [OF assms]
  consider "list_all is64 t" "t \<noteq> []"
    | v og where "t = v @ CHR ''+'' # og" "list_all is64 v" "v \<noteq> []"
        "list_all is64 og" "og \<noteq> []"
    by blast
  then show ?thesis
  proof cases
    case 1
    then show ?thesis using match_tok_bare [of t "[]"] b by (simp add: is_tok_def)
  next
    case 2
    then show ?thesis using match_tok_ext [of v og "[]"] b by (simp add: is_tok_def)
  qed
qed

lemma is_tok_not_Nil: "is_tok t \<Longrightarrow> t \<noteq> []"
  by (auto simp: is_tok_def match_tok_def)

lemma is_tok_zero: "is_tok ''0''"
  by (simp add: is_tok_def match_tok_def is64_simps)

subsection \<open>Capture groups and the whole expression\<close>

lemma match_group_sound:
  assumes "match_group q s = (g, r)"
  shows "group_ok g \<and> s = render_group q g @ r"
proof (cases s)
  case Nil
  with assms show ?thesis by (simp add: match_group_def)
next
  case (Cons c s')
  show ?thesis
  proof (cases "c = q")
    case False
    with assms Cons show ?thesis by (auto simp: match_group_def)
  next
    case True
    show ?thesis
    proof (cases "match_tok s'")
      case None
      with assms Cons True show ?thesis by (auto simp: match_group_def)
    next
      case (Some p)
      obtain t r' where p: "p = (t, r')" by (cases p)
      with Some have m: "match_tok s' = Some (t, r')" by simp
      with assms Cons True have "g = TStr t" "r = r'"
        by (simp_all add: match_group_def)
      moreover have "is_tok t" using m by (rule match_tok_is_tok)
      moreover have "s' = t @ r'" using match_tok_shape [OF m] by blast
      ultimately show ?thesis using Cons True by simp
    qed
  qed
qed

lemma match_group_render:
  assumes "group_ok g" and "boundary r" and "r = [] \<or> hd r \<noteq> q"
  shows "match_group q (render_group q g @ r) = (g, r)"
proof (cases g)
  case TUndefined
  with assms(3) show ?thesis
    by (cases r) (auto simp: match_group_def)
next
  case (TStr t)
  with assms(1) have "is_tok t" by simp
  then have "match_tok (t @ r) = Some (t, r)"
    using assms(2) by (rule is_tok_boundary)
  with TStr show ?thesis by (simp add: match_group_def)
next
  case TNull
  with assms(1) show ?thesis by simp
next
  case (TStamp x)
  with assms(1) show ?thesis by simp
qed

lemma render_4:
  "render [g1, g2, g3, g4] =
     render_group CHR ''/'' g1 @ render_group CHR ''#'' g2
       @ render_group CHR ''!'' g3 @ render_group CHR ''.'' g4"
  by (simp add: render_def quants_def)

lemma render_group_start: "render_group q g = [] \<or> hd (render_group q g) = q"
  by (cases g) simp_all

lemma reSpec_exec_sound:
  assumes "reSpec_exec s = Some m"
  shows "\<exists>g1 g2 g3 g4. m = [TStr s, g1, g2, g3, g4]
           \<and> group_ok g1 \<and> group_ok g2 \<and> group_ok g3 \<and> group_ok g4
           \<and> s = render [g1, g2, g3, g4]"
proof -
  obtain g1 r1 where 1: "match_group CHR ''/'' s = (g1, r1)" by (cases "match_group CHR ''/'' s")
  obtain g2 r2 where 2: "match_group CHR ''#'' r1 = (g2, r2)" by (cases "match_group CHR ''#'' r1")
  obtain g3 r3 where 3: "match_group CHR ''!'' r2 = (g3, r3)" by (cases "match_group CHR ''!'' r2")
  obtain g4 r4 where 4: "match_group CHR ''.'' r3 = (g4, r4)" by (cases "match_group CHR ''.'' r3")
  from assms have e: "r4 = []" and m: "m = [TStr s, g1, g2, g3, g4]"
    by (auto simp: reSpec_exec_def quants_nth 1 2 3 4 split: if_splits)
  note a = match_group_sound [OF 1] match_group_sound [OF 2]
    match_group_sound [OF 3] match_group_sound [OF 4]
  have "s = render [g1, g2, g3, g4]"
    using a e by (simp add: render_4)
  with a m show ?thesis by blast
qed

lemma boundary_render_group:
  "q \<in> set quants \<Longrightarrow> boundary r \<Longrightarrow> boundary (render_group q g @ r)"
  by (cases g) (auto simp: boundary_def quants_def is64_simps)

lemma reSpec_exec_complete:
  assumes "group_ok g1" "group_ok g2" "group_ok g3" "group_ok g4"
  shows "reSpec_exec (render [g1, g2, g3, g4])
           = Some [TStr (render [g1, g2, g3, g4]), g1, g2, g3, g4]"
proof -
  let ?s4 = "render_group CHR ''.'' g4"
  let ?s3 = "render_group CHR ''!'' g3 @ ?s4"
  let ?s2 = "render_group CHR ''#'' g2 @ ?s3"
  have b0: "boundary []" by (simp add: boundary_def)
  have b4: "boundary ?s4"
    using boundary_render_group [of "CHR ''.''" "[]" g4] b0 by (simp add: quants_def)
  have b3: "boundary ?s3"
    by (rule boundary_render_group) (simp_all add: quants_def b4)
  have b2: "boundary ?s2"
    by (rule boundary_render_group) (simp_all add: quants_def b3)
  have h4: "?s4 = [] \<or> hd ?s4 \<noteq> CHR ''!''" "?s4 = [] \<or> hd ?s4 \<noteq> CHR ''#''"
    "?s4 = [] \<or> hd ?s4 \<noteq> CHR ''/''"
    by (cases g4; simp)+
  have h3: "?s3 = [] \<or> hd ?s3 \<noteq> CHR ''#''" "?s3 = [] \<or> hd ?s3 \<noteq> CHR ''/''"
    by (cases g3; cases g4; simp)+
  have h2: "?s2 = [] \<or> hd ?s2 \<noteq> CHR ''/''"
    by (cases g2; cases g3; cases g4; simp)
  have 4: "match_group CHR ''.'' ?s4 = (g4, [])"
    using match_group_render [OF assms(4) b0, of "CHR ''.''"] by simp
  have 3: "match_group CHR ''!'' ?s3 = (g3, ?s4)"
    using assms(3) b4 h4(1) by (rule match_group_render)
  have 2: "match_group CHR ''#'' ?s2 = (g2, ?s3)"
    using assms(2) b3 h3(1) by (rule match_group_render)
  have 1: "match_group CHR ''/'' (render_group CHR ''/'' g1 @ ?s2) = (g1, ?s2)"
    using assms(1) b2 h2 by (rule match_group_render)
  show ?thesis
    unfolding reSpec_exec_def render_4 quants_nth
    by (simp only: 1 2 3 4 Let_def prod.case simp_thms if_True)
qed

subsection \<open>The loops of the constructor and of the serializer\<close>

lemma new_Stamp_group:
  "group_ok g \<Longrightarrow> new_Stamp g h = (Inr \<lparr>ref = Suc h, str = group_text g\<rparr>, Suc h)"
  by (cases g) (auto simp: new_Stamp_def dest: is_tok_not_Nil)

lemma group_ok_not_null: "group_ok g \<Longrightarrow> g \<noteq> TNull"
  by (cases g) simp_all

lemma string_loop_groups:
  assumes "group_ok g1" "group_ok g2" "group_ok g3" "group_ok g4"
  shows "string_loop [m0, g1, g2, g3, g4] [1, 2, 3, 4] ZERO_toks h =
           (Inr [\<lparr>ref = h + 1, str = group_text g1\<rparr>, \<lparr>ref = h + 2, str = group_text g2\<rparr>,
                 \<lparr>ref = h + 3, str = group_text g3\<rparr>, \<lparr>ref = h + 4, str = group_text g4\<rparr>],
            h + 4)"
  using assms
  by (simp add: new_Stamp_group group_ok_not_null ZERO_toks_def
      numeral_2_eq_2 numeral_3_eq_3 eval_nat_numeral)

lemma new_Spec_string:
  assumes "s \<noteq> []" and "reSpec_exec s = Some [m0, g1, g2, g3, g4]"
    and "group_ok g1" "group_ok g2" "group_ok g3" "group_ok g4"
  shows "new_Spec (AStr s) h =
           (Inr \<lparr>toks = [\<lparr>ref = h + 1, str = group_text g1\<rparr>, \<lparr>ref = h + 2, str = group_text g2\<rparr>,
                 \<lparr>ref = h + 3, str = group_text g3\<rparr>, \<lparr>ref = h + 4, str = group_text g4\<rparr>]\<rparr>,
            h + 4)"
proof -
  have "new_Spec (AStr s) h = wrap_toks (string_loop [m0, g1, g2, g3, g4] [1, 2, 3, 4] ZERO_toks h)"
    using assms(1,2) by (simp add: new_Spec_def)
  also note string_loop_groups [OF assms(3-6)]
  finally show ?thesis by (simp add: wrap_toks_def)
qed

lemma toString_loop_unroll:
  "toString_loop a d [0, 1, 2, 3] [] =
     (let ret = emitted a d 0 @ emitted a d 1 @ emitted a d 2
      in if ret = [] then [quants ! 3] @ str (toks a ! 3) else ret @ emitted a d 3)"
  by (simp add: emitted_def Stamp_toString_def Let_def)

lemma toString_loop_not_Nil: "toString_loop a d [0, 1, 2, 3] [] \<noteq> []"
  by (simp add: toString_loop_unroll Let_def)

lemma toString_fresh:
  assumes "r1 \<noteq> 0" "r2 \<noteq> 0" "r3 \<noteq> 0" "r4 \<noteq> 0"
  shows "Spec_toString \<lparr>toks = [\<lparr>ref = r1, str = t1\<rparr>, \<lparr>ref = r2, str = t2\<rparr>,
                                 \<lparr>ref = r3, str = t3\<rparr>, \<lparr>ref = r4, str = t4\<rparr>]\<rparr> None
           = render [TStr t1, TStr t2, TStr t3, TStr t4]"
  using assms
  by (simp add: Spec_toString_def emitted_def NON_SPECIFIC_NOOP_def Stamp_toString_def
      ZERO_toks_def Stamp_ZERO_def quants_nth render_4 Let_def)

lemma toString_empty: "Spec_toString NON_SPECIFIC_NOOP None = ''.0''"
  by (simp add: Spec_toString_def emitted_def NON_SPECIFIC_NOOP_def Stamp_toString_def
      ZERO_toks_def Stamp_ZERO_def quants_nth Let_def)

lemma group_text_ok: "group_ok g \<Longrightarrow> is_tok (group_text g)"
  by (cases g) (simp_all add: is_tok_zero)

subsection \<open>Parsing what was serialized\<close>

text \<open>
  C2: for every string \<open>s\<close> that the specifier grammar accepts, constructing a specifier
  from \<open>s\<close> succeeds, and serializing it with the default baseline and constructing a
  specifier from the result succeeds as well and gives a specifier structurally equal
  (all four tokens structurally equal) to the first one.
\<close>

theorem parse_serialize_parse:
  assumes "reSpec_exec s = Some m"
  shows "\<exists>a h1 b h2. new_Spec (AStr s) h = (Inr a, h1)
           \<and> new_Spec (AStr (Spec_toString a None)) h1 = (Inr b, h2)
           \<and> Spec_equal b a"
proof (cases "s = []")
  case True
  have u: "group_ok TUndefined" and z: "group_ok (TStr ''0'')"
    by (simp_all add: is_tok_zero)
  have 1: "new_Spec (AStr s) h = (Inr NON_SPECIFIC_NOOP, h)"
    using True by (simp add: new_Spec_def NON_SPECIFIC_NOOP_def)
  have r: "render [TUndefined, TUndefined, TUndefined, TStr ''0''] = ''.0''"
    by (simp add: render_4)
  have "reSpec_exec ''.0'' = Some [TStr ''.0'', TUndefined, TUndefined, TUndefined, TStr ''0'']"
    using reSpec_exec_complete [OF u u u z] by (simp only: r)
  then have 2: "new_Spec (AStr ''.0'') h =
      (Inr \<lparr>toks = [\<lparr>ref = h + 1, str = ''0''\<rparr>, \<lparr>ref = h + 2, str = ''0''\<rparr>,
                    \<lparr>ref = h + 3, str = ''0''\<rparr>, \<lparr>ref = h + 4, str = ''0''\<rparr>]\<rparr>, h + 4)"
    using new_Spec_string [of "''.0''" "TStr ''.0''" TUndefined TUndefined TUndefined "TStr ''0''" h]
      u z by simp
  have 3: "Spec_equal \<lparr>toks = [\<lparr>ref = h + 1, str = ''0''\<rparr>, \<lparr>ref = h + 2, str = ''0''\<rparr>,
                    \<lparr>ref = h + 3, str = ''0''\<rparr>, \<lparr>ref = h + 4, str = ''0''\<rparr>]\<rparr> NON_SPECIFIC_NOOP"
    by (simp add: Spec_equal_def Stamp_eq_def NON_SPECIFIC_NOOP_def ZERO_toks_def Stamp_ZERO_def)
  from 2 have z2: "new_Spec (AStr (Spec_toString NON_SPECIFIC_NOOP None)) h =
      (Inr \<lparr>toks = [\<lparr>ref = h + 1, str = ''0''\<rparr>, \<lparr>ref = h + 2, str = ''0''\<rparr>,
                    \<lparr>ref = h + 3, str = ''0''\<rparr>, \<lparr>ref = h + 4, str = ''0''\<rparr>]\<rparr>, h + 4)"
    by (simp only: toString_empty)
  from 1 z2 3 show ?thesis by blast
next
  case False
  from reSpec_exec_sound [OF assms] obtain g1 g2 g3 g4 where
    m: "m = [TStr s, g1, g2, g3, g4]" and
    ok: "group_ok g1" "group_ok g2" "group_ok g3" "group_ok g4"
    by blast
  let ?a = "\<lparr>toks = [\<lparr>ref = h + 1, str = group_text g1\<rparr>, \<lparr>ref = h + 2, str = group_text g2\<rparr>,
                 \<lparr>ref = h + 3, str = group_text g3\<rparr>, \<lparr>ref = h + 4, str = group_text g4\<rparr>]\<rparr>"
  let ?gs = "[TStr (group_text g1), TStr (group_text g2), TStr (group_text g3),
              TStr (group_text g4)]"
  let ?b = "\<lparr>toks = [\<lparr>ref = h + 4 + 1, str = group_text g1\<rparr>,
                      \<lparr>ref = h + 4 + 2, str = group_text g2\<rparr>,
                      \<lparr>ref = h + 4 + 3, str = group_text g3\<rparr>,
                      \<lparr>ref = h + 4 + 4, str = group_text g4\<rparr>]\<rparr>"
  have 1: "new_Spec (AStr s) h = (Inr ?a, h + 4)"
    using False assms [unfolded m] ok by (rule new_Spec_string)
  have t: "Spec_toString ?a None = render ?gs"
    by (rule toString_fresh) simp_all
  have ok': "group_ok (TStr (group_text g1))" "group_ok (TStr (group_text g2))"
    "group_ok (TStr (group_text g3))" "group_ok (TStr (group_text g4))"
    using ok by (simp_all add: group_text_ok)
  have ne: "render ?gs \<noteq> []"
    by (simp add: render_4)
  have e: "reSpec_exec (render ?gs) = Some (TStr (render ?gs) # ?gs)"
    using ok' by (rule reSpec_exec_complete)
  have "new_Spec (AStr (render ?gs)) (h + 4) = (Inr ?b, h + 4 + 4)"
    using new_Spec_string [OF ne e ok', of "h + 4"] by simp
  then have 2: "new_Spec (AStr (Spec_toString ?a None)) (h + 4) = (Inr ?b, h + 4 + 4)"
    by (simp only: t)
  have 3: "Spec_equal ?b ?a"
    by (simp add: Spec_equal_def Stamp_eq_def)
  from 1 2 3 show ?thesis by blast
qed

lemma reSpec_exec_iff_grammar: "(reSpec_exec s \<noteq> None) = in_grammar s"
proof
  assume "reSpec_exec s \<noteq> None"
  then obtain m where "reSpec_exec s = Some m" by blast
  from reSpec_exec_sound [OF this] show "in_grammar s"
    unfolding in_grammar_def by blast
next
  assume "in_grammar s"
  then obtain g1 g2 g3 g4 where
    ok: "group_ok g1" "group_ok g2" "group_ok g3" "group_ok g4" and
    s: "s = render [g1, g2, g3, g4]"
    unfolding in_grammar_def by blast
  from reSpec_exec_complete [OF ok] show "reSpec_exec s \<noteq> None"
    by (simp add: s)
qed

text \<open>The round trip at a string with two of the four groups.\<close>

theorem parse_serialize_parse_witness:
  "reSpec_exec ''/TodoItem.done'' =
     Some [TStr ''/TodoItem.done'', TStr ''TodoItem'', TUndefined, TUndefined, TStr ''done'']
   \<and> new_Spec (AStr ''/TodoItem.done'') 0
      = (Inr \<lparr>toks = [\<lparr>ref = 1, str = ''TodoItem''\<rparr>, \<lparr>ref = 2, str = ''0''\<rparr>,
                       \<lparr>ref = 3, str = ''0''\<rparr>, \<lparr>ref = 4, str = ''done''\<rparr>]\<rparr>, 4)
   \<and> Spec_toString \<lparr>toks = [\<lparr>ref = 1, str = ''TodoItem''\<rparr>, \<lparr>ref = 2, str = ''0''\<rparr>,
                       \<lparr>ref = 3, str = ''0''\<rparr>, \<lparr>ref = 4, str = ''done''\<rparr>]\<rparr> None
      = ''/TodoItem#0!0.done''
   \<and> new_Spec (AStr ''/TodoItem#0!0.done'') 4
      = (Inr \<lparr>toks = [\<lparr>ref = 5, str = ''TodoItem''\<rparr>, \<lparr>ref = 6, str = ''0''\<rparr>,
                       \<lparr>ref = 7, str = ''0''\<rparr>, \<lparr>ref = 8, str = ''done''\<rparr>]\<rparr>, 8)
   \<and> Spec_equal \<lparr>toks = [\<lparr>ref = 5, str = ''TodoItem''\<rparr>, \<lparr>ref = 6, str = ''0''\<rparr>,
                       \<lparr>ref = 7, str = ''0''\<rparr>, \<lparr>ref = 8, str = ''done''\<rparr>]\<rparr>
        \<lparr>toks = [\<lparr>ref = 1, str = ''TodoItem''\<rparr>, \<lparr>ref = 2, str = ''0''\<rparr>,
                       \<lparr>ref = 3, str = ''0''\<rparr>, \<lparr>ref = 4, str = ''done''\<rparr>]\<rparr>"
proof -
  have e: "reSpec_exec ''/TodoItem.done'' =
     Some [TStr ''/TodoItem.done'', TStr ''TodoItem'', TUndefined, TUndefined, TStr ''done'']"
    by code_simp
  have p: "new_Spec (AStr ''/TodoItem.done'') 0
      = (Inr \<lparr>toks = [\<lparr>ref = 1, str = ''TodoItem''\<rparr>, \<lparr>ref = 2, str = ''0''\<rparr>,
                       \<lparr>ref = 3, str = ''0''\<rparr>, \<lparr>ref = 4, str = ''done''\<rparr>]\<rparr>, 4)"
    by code_simp
  have t: "Spec_toString \<lparr>toks = [\<lparr>ref = 1, str = ''TodoItem''\<rparr>, \<lparr>ref = 2, str = ''0''\<rparr>,
                       \<lparr>ref = 3, str = ''0''\<rparr>, \<lparr>ref = 4, str = ''done''\<rparr>]\<rparr> None
      = ''/TodoItem#0!0.done''"
    by code_simp
  have q: "new_Spec (AStr ''/TodoItem#0!0.done'') 4
      = (Inr \<lparr>toks = [\<lparr>ref = 5, str = ''TodoItem''\<rparr>, \<lparr>ref = 6, str = ''0''\<rparr>,
                       \<lparr>ref = 7, str = ''0''\<rparr>, \<lparr>ref = 8, str = ''done''\<rparr>]\<rparr>, 8)"
    by code_simp
  from parse_serialize_parse [OF e, of 0] obtain a h1 b h2 where
    r: "new_Spec (AStr ''/TodoItem.done'') 0 = (Inr a, h1)"
      "new_Spec (AStr (Spec_toString a None)) h1 = (Inr b, h2)" "Spec_equal b a"
    by blast
  from r(1) p have a: "a = \<lparr>toks = [\<lparr>ref = 1, str = ''TodoItem''\<rparr>, \<lparr>ref = 2, str = ''0''\<rparr>,
                       \<lparr>ref = 3, str = ''0''\<rparr>, \<lparr>ref = 4, str = ''done''\<rparr>]\<rparr>" and h1: "h1 = 4"
    by simp_all
  from r(2) have "new_Spec (AStr ''/TodoItem#0!0.done'') 4 = (Inr b, h2)"
    unfolding a h1 t .
  with q have b: "b = \<lparr>toks = [\<lparr>ref = 5, str = ''TodoItem''\<rparr>, \<lparr>ref = 6, str = ''0''\<rparr>,
                       \<lparr>ref = 7, str = ''0''\<rparr>, \<lparr>ref = 8, str = ''done''\<rparr>]\<rparr>"
    by simp
  from r(3) have "Spec_equal \<lparr>toks = [\<lparr>ref = 5, str = ''TodoItem''\<rparr>, \<lparr>ref = 6, str = ''0''\<rparr>,
                       \<lparr>ref = 7, str = ''0''\<rparr>, \<lparr>ref = 8, str = ''done''\<rparr>]\<rparr>
        \<lparr>toks = [\<lparr>ref = 1, str = ''TodoItem''\<rparr>, \<lparr>ref = 2, str = ''0''\<rparr>,
                       \<lparr>ref = 3, str = ''0''\<rparr>, \<lparr>ref = 4, str = ''done''\<rparr>]\<rparr>"
    unfolding a b .
  with e p t q show ?thesis by blast
qed

subsection \<open>Construction from a string\<close>

text \<open>
  C6 says that the string \<open>/TodoItem#7AM0f+gritzko.done!7AMTc+gritzko\<close> parses to type, id,
  stamp and name. In that string the name group \<open>.done\<close> stands before the stamp group
  \<open>!7AMTc+gritzko\<close>; the expression takes the groups in the order \<open>/ # ! .\<close> only, so
  the match fails and the constructor throws.
\<close>

theorem example_order_counterexample:
  "new_Spec (AStr ''/TodoItem#7AM0f+gritzko.done!7AMTc+gritzko'') 0 = (Inl InvalidSpecifier, 0)"
  by code_simp

text \<open>
  C6 (amended): constructing a specifier from a non-empty string is an anchored match
  of the whole string against the grammar: up to four groups, each a quant followed by
  a token, in the order \<open>/ # ! .\<close>, each group optional, nothing else. A string that does
  not match fails with the invalid-specifier error and creates nothing. On a
  match, the groups are those of the string, a position whose group took part in the
  match holds the matched token, and a position whose group did not holds a token
  with the text \<open>0\<close> of the zero sentinel.
\<close>

theorem Spec_from_string:
  assumes "s \<noteq> []"
  shows "(reSpec_exec s \<noteq> None) = in_grammar s
     \<and> (reSpec_exec s = None \<longrightarrow> new_Spec (AStr s) h = (Inl InvalidSpecifier, h))
     \<and> (\<forall>g1 g2 g3 g4. reSpec_exec s = Some [TStr s, g1, g2, g3, g4] \<longrightarrow>
           (\<exists>a h'. new_Spec (AStr s) h = (Inr a, h')
              \<and> map str (toks a) = map group_text [g1, g2, g3, g4]))
     \<and> (\<forall>m. reSpec_exec s = Some m \<longrightarrow>
           (\<exists>g1 g2 g3 g4. m = [TStr s, g1, g2, g3, g4] \<and> s = render [g1, g2, g3, g4]
              \<and> group_ok g1 \<and> group_ok g2 \<and> group_ok g3 \<and> group_ok g4))"
proof -
  have 1: "(reSpec_exec s \<noteq> None) = in_grammar s"
    by (rule reSpec_exec_iff_grammar)
  have 2: "reSpec_exec s = None \<longrightarrow> new_Spec (AStr s) h = (Inl InvalidSpecifier, h)"
    using assms by (simp add: new_Spec_def)
  have 4: "\<forall>m. reSpec_exec s = Some m \<longrightarrow>
           (\<exists>g1 g2 g3 g4. m = [TStr s, g1, g2, g3, g4] \<and> s = render [g1, g2, g3, g4]
              \<and> group_ok g1 \<and> group_ok g2 \<and> group_ok g3 \<and> group_ok g4)"
    using reSpec_exec_sound by blast
  have 3: "\<forall>g1 g2 g3 g4. reSpec_exec s = Some [TStr s, g1, g2, g3, g4] \<longrightarrow>
           (\<exists>a h'. new_Spec (AStr s) h = (Inr a, h')
              \<and> map str (toks a) = map group_text [g1, g2, g3, g4])"
  proof (intro allI impI)
    fix g1 g2 g3 g4
    assume e: "reSpec_exec s = Some [TStr s, g1, g2, g3, g4]"
    from reSpec_exec_sound [OF e] have ok: "group_ok g1" "group_ok g2" "group_ok g3" "group_ok g4"
      by simp_all
    from new_Spec_string [OF assms e ok, of h]
    show "\<exists>a h'. new_Spec (AStr s) h = (Inr a, h')
              \<and> map str (toks a) = map group_text [g1, g2, g3, g4]"
      by simp
  qed
  from 1 2 3 4 show ?thesis by blast
qed

text \<open>
  The theorem at the string \<open>X#Y\<close>, which fails, and the to-do item in the order of the
  grammar, which gives type \<open>TodoItem\<close>, id \<open>7AM0f+gritzko\<close>, stamp \<open>7AMTc+gritzko\<close> and
  name \<open>done\<close>.
\<close>

theorem Spec_from_string_witness:
  "''X#Y'' \<noteq> [] \<and> reSpec_exec ''X#Y'' = None
   \<and> new_Spec (AStr ''X#Y'') 0 = (Inl InvalidSpecifier, 0)
   \<and> reSpec_exec ''/TodoItem#7AM0f+gritzko!7AMTc+gritzko.done''
        = Some [TStr ''/TodoItem#7AM0f+gritzko!7AMTc+gritzko.done'', TStr ''TodoItem'',
                TStr ''7AM0f+gritzko'', TStr ''7AMTc+gritzko'', TStr ''done'']
   \<and> new_Spec (AStr ''/TodoItem#7AM0f+gritzko!7AMTc+gritzko.done'') 0
        = (Inr \<lparr>toks = [\<lparr>ref = 1, str = ''TodoItem''\<rparr>, \<lparr>ref = 2, str = ''7AM0f+gritzko''\<rparr>,
                         \<lparr>ref = 3, str = ''7AMTc+gritzko''\<rparr>, \<lparr>ref = 4, str = ''done''\<rparr>]\<rparr>, 4)
   \<and> Spec_type \<lparr>toks = [\<lparr>ref = 1, str = ''TodoItem''\<rparr>, \<lparr>ref = 2, str = ''7AM0f+gritzko''\<rparr>,
                         \<lparr>ref = 3, str = ''7AMTc+gritzko''\<rparr>, \<lparr>ref = 4, str = ''done''\<rparr>]\<rparr>
        = ''TodoItem''
   \<and> Spec_id \<lparr>toks = [\<lparr>ref = 1, str = ''TodoItem''\<rparr>, \<lparr>ref = 2, str = ''7AM0f+gritzko''\<rparr>,
                         \<lparr>ref = 3, str = ''7AMTc+gritzko''\<rparr>, \<lparr>ref = 4, str = ''done''\<rparr>]\<rparr>
        = ''7AM0f+gritzko''
   \<and> Spec_stamp \<lparr>toks = [\<lparr>ref = 1, str = ''TodoItem''\<rparr>, \<lparr>ref = 2, str = ''7AM0f+gritzko''\<rparr>,
                         \<lparr>ref = 3, str = ''7AMTc+gritzko''\<rparr>, \<lparr>ref = 4, str = ''done''\<rparr>]\<rparr>
        = ''7AMTc+gritzko''
   \<and> Spec_name \<lparr>toks = [\<lparr>ref = 1, str = ''TodoItem''\<rparr>, \<lparr>ref = 2, str = ''7AM0f+gritzko''\<rparr>,
                         \<lparr>ref = 3, str = ''7AMTc+gritzko''\<rparr>, \<lparr>ref = 4, str = ''done''\<rparr>]\<rparr>
        = ''done''"
proof -
  have n: "''X#Y'' \<noteq> []" by simp
  have x: "reSpec_exec ''X#Y'' = None" by code_simp
  have e: "reSpec_exec ''/TodoItem#7AM0f+gritzko!7AMTc+gritzko.done''
        = Some [TStr ''/TodoItem#7AM0f+gritzko!7AMTc+gritzko.done'', TStr ''TodoItem'',
                TStr ''7AM0f+gritzko'', TStr ''7AMTc+gritzko'', TStr ''done'']"
    by code_simp
  have p: "new_Spec (AStr ''/TodoItem#7AM0f+gritzko!7AMTc+gritzko.done'') 0
        = (Inr \<lparr>toks = [\<lparr>ref = 1, str = ''TodoItem''\<rparr>, \<lparr>ref = 2, str = ''7AM0f+gritzko''\<rparr>,
                         \<lparr>ref = 3, str = ''7AMTc+gritzko''\<rparr>, \<lparr>ref = 4, str = ''done''\<rparr>]\<rparr>, 4)"
    by code_simp
  have f: "new_Spec (AStr ''X#Y'') 0 = (Inl InvalidSpecifier, 0)"
    using Spec_from_string [OF n, of 0] x by blast
  from n x e p f show ?thesis
    by (simp add: Spec_type_def Spec_id_def Spec_stamp_def Spec_name_def)
qed

subsection \<open>Serialization\<close>

text \<open>
  C5 says that a position is left out when its token is structurally equal to the token
  of the defaults. The specifier made from the array \<^verbatim>\<open>["A", "0", "0", "0"]\<close> has, in the
  id position, a token with the text \<open>0\<close>, structurally equal to the zero sentinel of the default
  baseline; it is another object, and \<^verbatim>\<open>toString\<close> emits \<open>#0\<close> for it.
\<close>

theorem toString_identity_counterexample:
  "new_Spec (AArr [TStr ''A'', TStr ''0'', TStr ''0'', TStr ''0'']) 0
     = (Inr \<lparr>toks = [\<lparr>ref = 1, str = ''A''\<rparr>, \<lparr>ref = 2, str = ''0''\<rparr>,
                      \<lparr>ref = 3, str = ''0''\<rparr>, \<lparr>ref = 4, str = ''0''\<rparr>]\<rparr>, 4)
   \<and> Stamp_eq \<lparr>ref = 2, str = ''0''\<rparr> (toks NON_SPECIFIC_NOOP ! 1)
   \<and> Spec_toString \<lparr>toks = [\<lparr>ref = 1, str = ''A''\<rparr>, \<lparr>ref = 2, str = ''0''\<rparr>,
                            \<lparr>ref = 3, str = ''0''\<rparr>, \<lparr>ref = 4, str = ''0''\<rparr>]\<rparr> None
       = ''/A#0!0.0''"
  by code_simp

text \<open>
  C5 (amended): for every specifier and every defaults specifier (by default the empty
  one), \<^verbatim>\<open>toString\<close> emits, for each of the four positions in the order \<open>/ # ! .\<close>, the
  quant followed by the text of the token unless the token is the same object as the
  token of the defaults in that position; the name position is emitted anyway when
  nothing was emitted before it. The result is therefore never empty, and the
  serialization of the empty specifier is \<open>.0\<close>.
\<close>

theorem toString_by_identity:
  "Spec_toString a dflt =
     (let d = (case dflt of None \<Rightarrow> NON_SPECIFIC_NOOP | Some d \<Rightarrow> d);
          ret = emitted a d 0 @ emitted a d 1 @ emitted a d 2
      in if ret = [] then [quants ! 3] @ str (toks a ! 3) else ret @ emitted a d 3)
   \<and> Spec_toString a dflt \<noteq> []
   \<and> Spec_toString NON_SPECIFIC_NOOP None = ''.0''"
proof -
  let ?d = "case dflt of None \<Rightarrow> NON_SPECIFIC_NOOP | Some d \<Rightarrow> d"
  have l: "Spec_toString a dflt = toString_loop a ?d [0, 1, 2, 3] []"
    unfolding Spec_toString_def Let_def
    using toString_loop_not_Nil [of a ?d] by (simp only: if_False)
  have 1: "Spec_toString a dflt =
     (let d = ?d;
          ret = emitted a d 0 @ emitted a d 1 @ emitted a d 2
      in if ret = [] then [quants ! 3] @ str (toks a ! 3) else ret @ emitted a d 3)"
    unfolding l toString_loop_unroll Let_def ..
  have 2: "Spec_toString a dflt \<noteq> []"
    unfolding l by (rule toString_loop_not_Nil)
  from 1 2 toString_empty show ?thesis by blast
qed

lemma Spec_scope_undefined: "Spec_scope a = PUndefined"
  by (simp add: Spec_scope_def string_property_def String_prototype_def)

text \<open>
  The theorem on serialization at a specifier that went through \<^verbatim>\<open>blank('/#')\<close>: stamp and
  name are the zero sentinel itself and are left out.
\<close>

theorem toString_by_identity_witness:
  "Spec_toString \<lparr>toks = [\<lparr>ref = 1, str = ''TodoItem''\<rparr>, \<lparr>ref = 2, str = ''7AM0f+gritzko''\<rparr>,
                            Stamp_ZERO, Stamp_ZERO]\<rparr> None
     = ''/TodoItem#7AM0f+gritzko''"
proof -
  let ?a = "\<lparr>toks = [\<lparr>ref = 1, str = ''TodoItem''\<rparr>, \<lparr>ref = 2, str = ''7AM0f+gritzko''\<rparr>,
                      Stamp_ZERO, Stamp_ZERO]\<rparr>"
  have e: "emitted ?a NON_SPECIFIC_NOOP 0 = ''/TodoItem''"
    "emitted ?a NON_SPECIFIC_NOOP 1 = ''#7AM0f+gritzko''"
    "emitted ?a NON_SPECIFIC_NOOP 2 = []"
    "emitted ?a NON_SPECIFIC_NOOP 3 = []"
    by (simp_all add: emitted_def NON_SPECIFIC_NOOP_def ZERO_toks_def Stamp_ZERO_def quants_nth)
  note t = conjunct1 [OF toString_by_identity [of ?a None]]
  show ?thesis
    unfolding t option.case Let_def e by simp
qed

subsection \<open>The scope projection\<close>

text \<open>
  C7 says that \<^verbatim>\<open>scope\<close> returns the origin embedded in the name token. The getter reads
  \<^verbatim>\<open>origin\<close> on the string that \<^verbatim>\<open>name\<close> returns, not on the token, so it returns
  \<^verbatim>\<open>undefined\<close> for every specifier. For the to-do item whose name token is
  \<open>done+gritzko\<close> the origin of the name token is \<open>gritzko\<close>; the getter \<^verbatim>\<open>origin\<close>, which
  reads the stamp token itself, does return \<open>gritzko\<close>.
\<close>

theorem scope_of_example:
  "new_Spec (AStr ''/TodoItem#7AM0f+gritzko!7AMTc+gritzko.done+gritzko'') 0
     = (Inr \<lparr>toks = [\<lparr>ref = 1, str = ''TodoItem''\<rparr>, \<lparr>ref = 2, str = ''7AM0f+gritzko''\<rparr>,
                      \<lparr>ref = 3, str = ''7AMTc+gritzko''\<rparr>, \<lparr>ref = 4, str = ''done+gritzko''\<rparr>]\<rparr>, 4)
   \<and> Spec_scope \<lparr>toks = [\<lparr>ref = 1, str = ''TodoItem''\<rparr>, \<lparr>ref = 2, str = ''7AM0f+gritzko''\<rparr>,
                      \<lparr>ref = 3, str = ''7AMTc+gritzko''\<rparr>, \<lparr>ref = 4, str = ''done+gritzko''\<rparr>]\<rparr>
       = PUndefined
   \<and> Stamp_origin (Spec_Name \<lparr>toks = [\<lparr>ref = 1, str = ''TodoItem''\<rparr>,
                      \<lparr>ref = 2, str = ''7AM0f+gritzko''\<rparr>,
                      \<lparr>ref = 3, str = ''7AMTc+gritzko''\<rparr>, \<lparr>ref = 4, str = ''done+gritzko''\<rparr>]\<rparr>)
       = Some ''gritzko''
   \<and> Spec_origin \<lparr>toks = [\<lparr>ref = 1, str = ''TodoItem''\<rparr>, \<lparr>ref = 2, str = ''7AM0f+gritzko''\<rparr>,
                      \<lparr>ref = 3, str = ''7AMTc+gritzko''\<rparr>, \<lparr>ref = 4, str = ''done+gritzko''\<rparr>]\<rparr>
       = Some ''gritzko''"
  by code_simp

end
